theory Spec2Isabelle
  imports Complex_Main "HOL-Library.Sublist"
begin

section \<open>Texts and the JavaScript string primitives the program uses\<close>

text \<open>
  A JavaScript string is modelled as a \<^typ>\<open>string\<close>: the list of its code units, each
  an 8-bit \<^typ>\<open>char\<close>. The model therefore covers texts whose code units are below 256,
  and a file is the list of its bytes with \<^verbatim>\<open>Blob.text()\<close> decoding one byte to one
  code unit (ASCII input). \<^verbatim>\<open>file.slice(a, b)\<close> is \<open>take (b - a) (drop a file)\<close> and
  \<^verbatim>\<open>file.size\<close> is \<open>length file\<close>.
\<close>

abbreviation QUOTE :: char where "QUOTE \<equiv> CHR 0x22"
abbreviation LF :: char where "LF \<equiv> CHR 0x0A"
abbreviation CR :: char where "CR \<equiv> CHR 0x0D"
abbreviation TAB :: char where "TAB \<equiv> CHR 0x09"
abbreviation COMMA :: char where "COMMA \<equiv> CHR 0x2C"
abbreviation PIPE :: char where "PIPE \<equiv> CHR 0x7C"
abbreviation SEMICOLON :: char where "SEMICOLON \<equiv> CHR 0x3B"
abbreviation SPACE :: char where "SPACE \<equiv> CHR 0x20"

text \<open>
  \<^verbatim>\<open>String.prototype.trim\<close> strips the ECMAScript white space and line terminator code
  units from both ends; below 256 these are U+0009..U+000D, U+0020 and U+00A0.
\<close>

definition isWhiteSpace :: "char \<Rightarrow> bool" where
  "isWhiteSpace c \<longleftrightarrow>
     c = CHR 0x09 \<or> c = CHR 0x0A \<or> c = CHR 0x0B \<or> c = CHR 0x0C \<or> c = CHR 0x0D \<or>
     c = CHR 0x20 \<or> c = CHR 0xA0"

definition trim :: "string \<Rightarrow> string" where
  "trim s = rev (dropWhile isWhiteSpace (rev (dropWhile isWhiteSpace s)))"

text \<open>\<^verbatim>\<open>s.startsWith(c)\<close> and \<^verbatim>\<open>s.endsWith(c)\<close> for a one-character \<open>c\<close>.\<close>

definition startsWith :: "string \<Rightarrow> char \<Rightarrow> bool" where
  "startsWith s c = (case s of [] \<Rightarrow> False | x # _ \<Rightarrow> x = c)"

definition endsWith :: "string \<Rightarrow> char \<Rightarrow> bool" where
  "endsWith s c = (s \<noteq> [] \<and> last s = c)"

text \<open>\<^verbatim>\<open>xs[i]\<close>: \<^verbatim>\<open>undefined\<close> (here \<open>None\<close>) out of range.\<close>

definition js_index :: "'a list \<Rightarrow> nat \<Rightarrow> 'a option" where
  "js_index xs i = (if i < length xs then Some (xs ! i) else None)"

text \<open>\<^verbatim>\<open>v || ''\<close> on a string or \<^verbatim>\<open>undefined\<close>.\<close>

definition or_empty :: "string option \<Rightarrow> string" where
  "or_empty v = (case v of None \<Rightarrow> [] | Some s \<Rightarrow> s)"

text \<open>\<^verbatim>\<open>parts.join(',')\<close>.\<close>

fun join_comma :: "string list \<Rightarrow> string" where
  "join_comma [] = []"
| "join_comma [x] = x"
| "join_comma (x # y # ys) = x @ COMMA # join_comma (y # ys)"

section \<open>The CSV encoder: \<^verbatim>\<open>formatCSVLine\<close>\<close>

text \<open>\<^verbatim>\<open>value.replace(/"/g, '""')\<close>.\<close>

fun escapeQuotes :: "string \<Rightarrow> string" where
  "escapeQuotes [] = []"
| "escapeQuotes (c # cs) =
     (if c = QUOTE then QUOTE # QUOTE # escapeQuotes cs else c # escapeQuotes cs)"

text \<open>The \<^verbatim>\<open>needsQuotes\<close> test of feedFilter.js.\<close>

definition needsQuotes :: "string \<Rightarrow> bool" where
  "needsQuotes v \<longleftrightarrow>
     COMMA \<in> set v \<or> QUOTE \<in> set v \<or> LF \<in> set v \<or> CR \<in> set v \<or>
     startsWith v SPACE \<or> endsWith v SPACE"

text \<open>The arrow function mapped over the values; \<open>None\<close> is \<^verbatim>\<open>null\<close>/\<^verbatim>\<open>undefined\<close>.\<close>

definition formatCSVValue :: "string option \<Rightarrow> string" where
  "formatCSVValue x =
     (case x of
        None \<Rightarrow> []
      | Some v \<Rightarrow> if needsQuotes v then QUOTE # escapeQuotes v @ [QUOTE] else v)"

definition formatCSVLine :: "string option list \<Rightarrow> string" where
  "formatCSVLine vs = join_comma (map formatCSVValue vs)"

text \<open>The encoder of the earlier variant (src/unnamed/part_000): no test for CR or spaces.\<close>

definition formatCSVValue0 :: "string option \<Rightarrow> string" where
  "formatCSVValue0 x =
     (case x of
        None \<Rightarrow> []
      | Some v \<Rightarrow>
          if COMMA \<in> set v \<or> QUOTE \<in> set v \<or> LF \<in> set v
          then QUOTE # escapeQuotes v @ [QUOTE] else v)"

definition formatCSVLine0 :: "string option list \<Rightarrow> string" where
  "formatCSVLine0 vs = join_comma (map formatCSVValue0 vs)"

section \<open>The quote-aware line parser: \<^verbatim>\<open>parseCSVLine\<close>\<close>

text \<open>
  The \<^verbatim>\<open>for\<close> loop over the characters of the line, as a recursion over the rest of
  the line; \<^verbatim>\<open>nextChar\<close> is the head of what follows, and \<^verbatim>\<open>i++\<close> inside the body
  skips it.
\<close>

definition nextChar :: "string \<Rightarrow> char option" where
  "nextChar rest = (case rest of [] \<Rightarrow> None | n # _ \<Rightarrow> Some n)"

fun parseCSVLine_loop :: "char \<Rightarrow> string list \<Rightarrow> string \<Rightarrow> bool \<Rightarrow> string \<Rightarrow> string list" where
  "parseCSVLine_loop d result current inQuotes [] = result @ [trim current]"
| "parseCSVLine_loop d result current inQuotes (c # rest) =
     (if c = QUOTE then
        (if inQuotes \<and> nextChar rest = Some QUOTE
         then parseCSVLine_loop d result (current @ [QUOTE]) inQuotes (tl rest)
         else parseCSVLine_loop d result current (\<not> inQuotes) rest)
      else if c = d \<and> \<not> inQuotes
      then parseCSVLine_loop d (result @ [trim current]) [] inQuotes rest
      else parseCSVLine_loop d result (current @ [c]) inQuotes rest)"

definition parseCSVLine :: "string \<Rightarrow> char \<Rightarrow> string list" where
  "parseCSVLine line d = parseCSVLine_loop d [] [] False line"

text \<open>The parser of the earlier variant (src/unnamed/part_000): the same loop, no trim.\<close>

fun parseCSVLine0_loop :: "char \<Rightarrow> string list \<Rightarrow> string \<Rightarrow> bool \<Rightarrow> string \<Rightarrow> string list" where
  "parseCSVLine0_loop d result current inQuotes [] = result @ [current]"
| "parseCSVLine0_loop d result current inQuotes (c # rest) =
     (if c = QUOTE then
        (if inQuotes \<and> nextChar rest = Some QUOTE
         then parseCSVLine0_loop d result (current @ [QUOTE]) inQuotes (tl rest)
         else parseCSVLine0_loop d result current (\<not> inQuotes) rest)
      else if c = d \<and> \<not> inQuotes
      then parseCSVLine0_loop d (result @ [current]) [] inQuotes rest
      else parseCSVLine0_loop d result (current @ [c]) inQuotes rest)"

definition parseCSVLine0 :: "string \<Rightarrow> char \<Rightarrow> string list" where
  "parseCSVLine0 line d = parseCSVLine0_loop d [] [] False line"

section \<open>Splitting a text\<close>

text \<open>\<^verbatim>\<open>text.split(/\r?\n/)\<close>: a CR directly before a LF belongs to the separator.\<close>

fun splitLines :: "string \<Rightarrow> string list" where
  "splitLines [] = [[]]"
| "splitLines (c # rest) =
     (if c = LF then [] # splitLines rest
      else if c = CR \<and> nextChar rest = Some LF then [] # splitLines (tl rest)
      else (case splitLines rest of [] \<Rightarrow> [[c]] | l # ls \<Rightarrow> (c # l) # ls))"

text \<open>\<^verbatim>\<open>text.split(sep)\<close> for a one-character separator.\<close>

fun splitOn :: "char \<Rightarrow> string \<Rightarrow> string list" where
  "splitOn sep [] = [[]]"
| "splitOn sep (c # rest) =
     (if c = sep then [] # splitOn sep rest
      else (case splitOn sep rest of [] \<Rightarrow> [[c]] | l # ls \<Rightarrow> (c # l) # ls))"

text \<open>\<^verbatim>\<open>text.lastIndexOf(c)\<close>; \<open>None\<close> is the result -1.\<close>

fun lastIndexOf :: "string \<Rightarrow> char \<Rightarrow> nat option" where
  "lastIndexOf [] c = None"
| "lastIndexOf (x # xs) c =
     (case lastIndexOf xs c of
        Some k \<Rightarrow> Some (Suc k)
      | None \<Rightarrow> if x = c then Some 0 else None)"

text \<open>
  \<^verbatim>\<open>removeBOM\<close>: drops a leading code unit U+FEFF. (No 8-bit code unit has that
  code, so on the texts of this model the function returns its argument.)
\<close>

definition removeBOM :: "string \<Rightarrow> string" where
  "removeBOM text =
     (case text of
        [] \<Rightarrow> text
      | c # cs \<Rightarrow> if (of_char c :: nat) = 0xFEFF then cs else text)"

section \<open>Double-precision arithmetic\<close>

text \<open>
  A JavaScript number is an IEEE 754 double. The finite doubles are rational numbers, and
  the model computes with them in \<^typ>\<open>rat\<close>: an arithmetic operation of the source is the
  exact operation followed by \<open>roundDouble\<close>, the rounding to the nearest number with a
  significand of 53 bits, a tie going to the even significand. The exponent is not bounded
  in the model; the numbers that this program computes from counts and offsets below
  \<open>2 ^ 53\<close> stay within the exponent range of the doubles, where the two roundings agree.
  A natural number below \<open>2 ^ 53\<close> is a double, and is used as it is.
\<close>

text \<open>The nearest integer, a tie going to the even one.\<close>

definition roundHalfEven :: "rat \<Rightarrow> int" where
  "roundHalfEven a =
     (let f = \<lfloor>a\<rfloor>; r = a - of_int f
      in if r < 1 / 2 then f else if 1 / 2 < r then f + 1 else if even f then f else f + 1)"

text \<open>
  The rounding of a number that is not negative: it is doubled or halved until it lies
  between \<open>2 ^ 52\<close> and \<open>2 ^ 53\<close>, rounded to an integer there, and scaled back.
\<close>

function roundUp :: "rat \<Rightarrow> rat" where
  "roundUp x = (if 0 < x \<and> x < 2 ^ 52 then roundUp (2 * x) / 2 else of_int (roundHalfEven x))"
  by pat_completeness auto
termination
proof (relation "measure (\<lambda>x. nat \<lceil>2 ^ 52 / x\<rceil>)")
  show "wf (measure (\<lambda>x::rat. nat \<lceil>2 ^ 52 / x\<rceil>))"
    by simp
next
  fix x :: rat
  assume a: "0 < x \<and> x < 2 ^ 52"
  define y where "y = 2 ^ 52 / x"
  have "1 < y"
    using a by (simp add: y_def)
  then have c: "2 \<le> \<lceil>y\<rceil>"
    by linarith
  have "y \<le> of_int \<lceil>y\<rceil>"
    by (rule le_of_int_ceiling)
  also have "\<dots> \<le> 2 * of_int (\<lceil>y\<rceil> - 1)"
    using c by simp
  finally have "y / 2 \<le> of_int (\<lceil>y\<rceil> - 1)"
    by simp
  then have "\<lceil>y / 2\<rceil> \<le> \<lceil>y\<rceil> - 1"
    by (rule ceiling_le)
  then have "nat \<lceil>y / 2\<rceil> < nat \<lceil>y\<rceil>"
    using c by linarith
  moreover have "2 ^ 52 / (2 * x) = y / 2"
    unfolding y_def by (simp only: divide_divide_eq_left mult.commute)
  ultimately have "nat \<lceil>2 ^ 52 / (2 * x)\<rceil> < nat \<lceil>2 ^ 52 / x\<rceil>"
    unfolding y_def by (simp only:)
  then show "(2 * x, x) \<in> measure (\<lambda>x. nat \<lceil>2 ^ 52 / x\<rceil>)"
    by (simp only: in_measure)
qed

function roundDown :: "rat \<Rightarrow> rat" where
  "roundDown x = (if 2 ^ 53 \<le> x then 2 * roundDown (x / 2) else roundUp x)"
  by pat_completeness auto
termination
proof (relation "measure (\<lambda>x. nat \<lfloor>x\<rfloor>)")
  show "wf (measure (\<lambda>x::rat. nat \<lfloor>x\<rfloor>))"
    by simp
next
  fix x :: rat
  assume a: "2 ^ 53 \<le> x"
  have "x / 2 \<le> x - 1"
    using a by simp
  then have "\<lfloor>x / 2\<rfloor> \<le> \<lfloor>x - 1\<rfloor>"
    by (rule floor_mono)
  then have "\<lfloor>x / 2\<rfloor> < \<lfloor>x\<rfloor>"
    by simp
  moreover have "(1::rat) \<le> x"
    using a by (rule order_trans [rotated]) simp
  then have "0 < \<lfloor>x\<rfloor>"
    by linarith
  ultimately show "(x / 2, x) \<in> measure (\<lambda>x. nat \<lfloor>x\<rfloor>)"
    by simp
qed

definition roundDouble :: "rat \<Rightarrow> rat" where
  "roundDouble x = (if x < 0 then - roundDown (- x) else roundDown x)"

text \<open>
  The operators \<^verbatim>\<open>+\<close>, \<^verbatim>\<open>-\<close>, \<^verbatim>\<open>*\<close> and \<^verbatim>\<open>/\<close> on numbers. \<^verbatim>\<open>Math.pow(x, 2)\<close>
  is the rounded square \<open>dmul x x\<close>. \<^verbatim>\<open>Math.round\<close> gives the nearest integer, a tie
  going upwards, and is exact.
\<close>

definition dadd :: "rat \<Rightarrow> rat \<Rightarrow> rat" where
  "dadd a b = roundDouble (a + b)"

definition dsub :: "rat \<Rightarrow> rat \<Rightarrow> rat" where
  "dsub a b = roundDouble (a - b)"

definition dmul :: "rat \<Rightarrow> rat \<Rightarrow> rat" where
  "dmul a b = roundDouble (a * b)"

definition ddiv :: "rat \<Rightarrow> rat \<Rightarrow> rat" where
  "ddiv a b = roundDouble (a / b)"

definition mathRound :: "rat \<Rightarrow> int" where
  "mathRound x = \<lfloor>x + 1 / 2\<rfloor>"

section \<open>The delimiter detector: \<^verbatim>\<open>detectDelimiter\<close>\<close>

text \<open>The keys of \<^verbatim>\<open>delimiterCounts\<close>, in the order \<^verbatim>\<open>Object.keys\<close> lists them.\<close>

definition candidates :: "char list" where
  "candidates = [COMMA, TAB, PIPE, SEMICOLON]"

definition sampleLines :: "string \<Rightarrow> string list" where
  "sampleLines text = filter (\<lambda>line. trim line \<noteq> []) (take 10 (splitLines text))"

text \<open>The scan of one sampled line: the counts of the candidates outside quoted spans.\<close>

fun lineCounts_loop :: "bool \<Rightarrow> (char \<Rightarrow> nat) \<Rightarrow> string \<Rightarrow> (char \<Rightarrow> nat)" where
  "lineCounts_loop inQuotes counts [] = counts"
| "lineCounts_loop inQuotes counts (c # rest) =
     (if c = QUOTE then
        (if inQuotes \<and> nextChar rest = Some QUOTE
         then lineCounts_loop inQuotes counts (tl rest)
         else lineCounts_loop (\<not> inQuotes) counts rest)
      else if \<not> inQuotes \<and> c \<in> set candidates
      then lineCounts_loop inQuotes (counts(c := counts c + 1)) rest
      else lineCounts_loop inQuotes counts rest)"

definition lineCounts :: "string \<Rightarrow> char \<Rightarrow> nat" where
  "lineCounts line = lineCounts_loop False (\<lambda>_. 0) line"

text \<open>\<^verbatim>\<open>delimiterCounts[delim]\<close>: the count of \<open>delim\<close> on each sampled line, in order.\<close>

definition delimiterCounts :: "string \<Rightarrow> char \<Rightarrow> nat list" where
  "delimiterCounts text delim = map (\<lambda>line. lineCounts line delim) (sampleLines text)"

text \<open>
  The consistency score of one candidate, with the operations in the order of the source:
  the two \<^verbatim>\<open>reduce\<close> calls are folds from 0, and every operation rounds.
\<close>

definition consistency :: "nat list \<Rightarrow> rat" where
  "consistency counts =
     (let n = of_nat (length counts);
          avgCount = ddiv (fold (\<lambda>b a. dadd a (of_nat b)) counts 0) n;
          variance =
            ddiv (fold (\<lambda>count sum. dadd sum (dmul (dsub (of_nat count) avgCount)
                                                    (dsub (of_nat count) avgCount)))
                    counts 0) n
      in if avgCount > 0 then dmul (ddiv 1 (dadd 1 variance)) avgCount else 0)"

text \<open>
  A candidate that the second \<^verbatim>\<open>forEach\<close> does not skip: it has counts, and its count
  on the first sampled line is not zero.
\<close>

definition eligible :: "(char \<Rightarrow> nat list) \<Rightarrow> char \<Rightarrow> bool" where
  "eligible dc delim \<longleftrightarrow> dc delim \<noteq> [] \<and> hd (dc delim) \<noteq> 0"

text \<open>One turn of the second \<^verbatim>\<open>forEach\<close>, on the pair (bestDelimiter, bestScore).\<close>

definition considerDelimiter :: "(char \<Rightarrow> nat list) \<Rightarrow> char \<Rightarrow> char \<times> rat \<Rightarrow> char \<times> rat" where
  "considerDelimiter dc delim best =
     (let counts = dc delim in
      if counts = [] \<or> hd counts = 0 then best
      else if consistency counts > snd best then (delim, consistency counts)
      else best)"

definition detectDelimiter :: "string \<Rightarrow> char" where
  "detectDelimiter text =
     (if sampleLines text = [] then COMMA
      else fst (fold (considerDelimiter (delimiterCounts text)) candidates (COMMA, - 1)))"

text \<open>The detector of the earlier variant (src/unnamed/part_000): the first line only.\<close>

definition detectDelimiter0 :: "string \<Rightarrow> char" where
  "detectDelimiter0 text =
     (let firstLine = hd (splitOn LF text);
          commaCount = length (filter (\<lambda>c. c = COMMA) firstLine);
          tabCount = length (filter (\<lambda>c. c = TAB) firstLine)
      in if tabCount > commaCount then TAB else COMMA)"

section \<open>The tokenizers: \<^verbatim>\<open>parseCSVData\<close> and \<^verbatim>\<open>parseTSVData\<close>\<close>

definition MAX_FIELD_SIZE :: nat where
  "MAX_FIELD_SIZE = 1000000"

text \<open>The test under which a finished line is kept: it is not an empty line.\<close>

definition nonEmptyLine :: "string list \<Rightarrow> bool" where
  "nonEmptyLine currentLine \<longleftrightarrow>
     length currentLine > 0 \<and> (length currentLine > 1 \<or> currentLine ! 0 \<noteq> [])"

text \<open>
  The state of the \<^verbatim>\<open>while\<close> loop of \<^verbatim>\<open>parseCSVData\<close>: lines, currentLine,
  currentField and inQuotes.
\<close>

type_synonym parse_state = "string list list \<times> string list \<times> string \<times> bool"

text \<open>
  One turn of the loop at the character \<open>c\<close>, with \<open>rest\<close> the text behind it: the new
  state, and the text from the new position \<open>i\<close> on (a turn that adds 2 to \<open>i\<close> drops the
  head of \<open>rest\<close>).
\<close>

definition parseCSVData_step :: "char \<Rightarrow> parse_state \<Rightarrow> char \<Rightarrow> string \<Rightarrow> parse_state \<times> string" where
  "parseCSVData_step d s c rest =
     (case s of (lines, currentLine, currentField, inQuotes) \<Rightarrow>
        if d \<noteq> TAB \<and> c = QUOTE then
          (if inQuotes \<and> nextChar rest = Some QUOTE
           then ((lines, currentLine, currentField @ [QUOTE], inQuotes), tl rest)
           else ((lines, currentLine, currentField, \<not> inQuotes), rest))
        else if d = TAB \<and> c = QUOTE then
          (if currentField = [] \<and> nextChar rest \<noteq> Some d \<and> nextChar rest \<noteq> Some LF \<and>
              nextChar rest \<noteq> Some CR
           then ((lines, currentLine, currentField, True), rest)
           else if inQuotes \<and>
              (nextChar rest = Some d \<or> nextChar rest = Some LF \<or> nextChar rest = Some CR \<or>
               nextChar rest = None)
           then ((lines, currentLine, currentField, False), rest)
           else if inQuotes \<and> nextChar rest = Some QUOTE
           then ((lines, currentLine, currentField @ [QUOTE], inQuotes), tl rest)
           else ((lines, currentLine, currentField @ [c], inQuotes), rest))
        else if c = d \<and> \<not> inQuotes
        then ((lines, currentLine @ [currentField], [], inQuotes), rest)
        else if (c = LF \<or> c = CR) \<and> \<not> inQuotes then
          ((if nonEmptyLine (currentLine @ [currentField])
            then lines @ [currentLine @ [currentField]] else lines,
            [], [], inQuotes),
           if c = CR \<and> nextChar rest = Some LF then tl rest else rest)
        else
          ((lines, currentLine,
            if length currentField < MAX_FIELD_SIZE then currentField @ [c] else currentField,
            inQuotes),
           rest))"

lemma parseCSVData_step_rest:
  "snd (parseCSVData_step d s c rest) = rest \<or> snd (parseCSVData_step d s c rest) = tl rest"
  by (cases s) (simp add: parseCSVData_step_def)

text \<open>The loop over the text from position \<open>i\<close> on; the result is the state at the end.\<close>

function parseCSVData_loop :: "char \<Rightarrow> parse_state \<Rightarrow> string \<Rightarrow> parse_state" where
  "parseCSVData_loop d s [] = s"
| "parseCSVData_loop d s (c # rest) =
     parseCSVData_loop d (fst (parseCSVData_step d s c rest)) (snd (parseCSVData_step d s c rest))"
  by pat_completeness auto
termination
proof (relation "measure (\<lambda>(d, s, t). length t)")
  show "wf (measure (\<lambda>(d, s, t). length t))"
    by simp
next
  fix d :: char and s :: parse_state and c :: char and rest :: string
  show "((d, fst (parseCSVData_step d s c rest), snd (parseCSVData_step d s c rest)), (d, s, c # rest))
          \<in> measure (\<lambda>(d, s, t). length t)"
    using parseCSVData_step_rest [of d s c rest]
    by (cases "parseCSVData_step d s c rest") auto
qed

text \<open>What follows the loop: the last field and the last line.\<close>

definition parseCSVData_finish :: "parse_state \<Rightarrow> string list list" where
  "parseCSVData_finish s =
     (case s of (lines, currentLine, currentField, inQuotes) \<Rightarrow>
        (let lastLine =
               (if currentField \<noteq> [] \<or> length currentLine > 0
                then currentLine @ [currentField] else currentLine)
         in if nonEmptyLine lastLine then lines @ [lastLine] else lines))"

definition parseCSVData :: "string \<Rightarrow> char \<Rightarrow> string list list" where
  "parseCSVData t d = parseCSVData_finish (parseCSVData_loop d ([], [], [], False) t)"

text \<open>\<^verbatim>\<open>s.replace(/""/g, '"')\<close>.\<close>

fun unescapeQuotes :: "string \<Rightarrow> string" where
  "unescapeQuotes [] = []"
| "unescapeQuotes (c # rest) =
     (if c = QUOTE \<and> nextChar rest = Some QUOTE then QUOTE # unescapeQuotes (tl rest)
      else c # unescapeQuotes rest)"

text \<open>
  The arrow function mapped over the fields of a tab-separated line, in \<^verbatim>\<open>parseTSVData\<close>
  and in the tab branch of \<^verbatim>\<open>exportFile\<close>; \<^verbatim>\<open>field.slice(1, -1)\<close> is \<open>butlast (tl field)\<close>.
\<close>

definition unquoteField :: "string \<Rightarrow> string" where
  "unquoteField field =
     (if field \<noteq> [] \<and> length field \<ge> 2 \<and> startsWith field QUOTE \<and> endsWith field QUOTE
      then unescapeQuotes (butlast (tl field)) else field)"

text \<open>\<^verbatim>\<open>while (xs.length < n) xs.push('')\<close>.\<close>

definition padTo :: "nat \<Rightarrow> string list \<Rightarrow> string list" where
  "padTo n xs = xs @ replicate (n - length xs) []"

definition parseTSVData :: "string \<Rightarrow> string list list" where
  "parseTSVData text =
     (let rawLines = filter (\<lambda>line. line \<noteq> []) (splitLines text);
          maxFields = fold (\<lambda>line m. max m (length (splitOn TAB line))) rawLines 0
      in map (\<lambda>line. padTo maxFields (map unquoteField (splitOn TAB line))) rawLines)"

section \<open>The session: \<^verbatim>\<open>handleFile\<close>\<close>

text \<open>
  The globals \<^verbatim>\<open>delimiter\<close> and \<^verbatim>\<open>headers\<close> that \<^verbatim>\<open>handleFile\<close> sets and
  \<^verbatim>\<open>exportFile\<close> reads. The page (preview table, check boxes, messages) is not modelled;
  the check boxes reach \<^verbatim>\<open>exportFile\<close> as the list of the selected column indices.
\<close>

record session =
  delimiter :: char
  headers :: "string list"

datatype error = AdmissionError | NoDataError | SelectionError

text \<open>The decimal digits of a number, as a template literal prints it.\<close>

function showNat :: "nat \<Rightarrow> string" where
  "showNat n =
     (if n < 10 then [''0123456789'' ! n] else showNat (n div 10) @ [''0123456789'' ! (n mod 10)])"
  by pat_completeness auto
termination
  by (relation "measure id") auto

text \<open>
  The placeholder names. The warning sign U+26A0 U+FE0F of the source text is written as
  the six bytes of its UTF-8 encoding.
\<close>

definition extraName :: "nat \<Rightarrow> string" where
  "extraName i =
     [CHR 0xE2, CHR 0x9A, CHR 0xA0, CHR 0xEF, CHR 0xB8, CHR 0x8F] @ '' Extra_'' @ showNat (i + 1)"

definition columnName :: "nat \<Rightarrow> string" where
  "columnName i = ''Column_'' @ showNat (i + 1)"

text \<open>
  The loop over the rows 1 to 19 of the preview that finds \<^verbatim>\<open>maxColumns\<close>; the rows
  are passed as a list.
\<close>

fun maxColumns_loop :: "nat \<Rightarrow> nat \<Rightarrow> string list list \<Rightarrow> nat" where
  "maxColumns_loop numColumns maxColumns [] = maxColumns"
| "maxColumns_loop numColumns maxColumns (row # rows) =
     maxColumns_loop numColumns
       (if length row \<noteq> numColumns then max maxColumns (length row) else maxColumns) rows"

text \<open>The header that \<^verbatim>\<open>handleFile\<close> derives from the parsed preview.\<close>

definition previewHeaders :: "char \<Rightarrow> string list list \<Rightarrow> string list" where
  "previewHeaders d parsedLines =
     (let hs = hd parsedLines;
          numColumns = length hs;
          maxColumns = maxColumns_loop numColumns numColumns (take 19 (drop 1 parsedLines))
      in if maxColumns > numColumns \<and> d = TAB
         then hs @ map extraName [numColumns..<maxColumns]
         else if maxColumns > numColumns
         then hs @ map columnName [numColumns..<maxColumns]
         else hs)"

definition handleFile :: "string \<Rightarrow> error + session" where
  "handleFile file =
     (if length file > 700 * 1024 * 1024 then Inl AdmissionError
      else
        (let chunkSize = 1024 * 1024;
             text = removeBOM (take (min chunkSize (length file)) file);
             d = detectDelimiter text;
             parsedLines = (if d = TAB then parseTSVData text else parseCSVData text d)
         in if parsedLines = [] then Inl NoDataError
            else Inr \<lparr>delimiter = d, headers = previewHeaders d parsedLines\<rparr>))"

section \<open>The export: \<^verbatim>\<open>exportFile\<close>\<close>

text \<open>
  The local variables of \<^verbatim>\<open>exportFile\<close> that live across chunks, and the values passed
  to \<^verbatim>\<open>showProgress\<close> in order. \<^verbatim>\<open>outputParts\<close> is what the downloaded blob is made of.
  Console output and the debug counters are not modelled.
\<close>

record export_state =
  offset :: nat
  outputParts :: "string list"
  remainder :: string
  isFirstChunk :: bool
  totalProcessed :: nat
  progress :: "nat list"

text \<open>
  \<^verbatim>\<open>Math.min(100, Math.round((offset / size) * 100))\<close>: the quotient is rounded to a
  double, its product with 100 is rounded to a double, and \<^verbatim>\<open>Math.round\<close> takes the
  nearest integer of that.
\<close>

definition percent :: "nat \<Rightarrow> nat \<Rightarrow> nat" where
  "percent off fileSize =
     nat (min 100 (mathRound (dmul (ddiv (of_nat off) (of_nat fileSize)) 100)))"

text \<open>\<^verbatim>\<open>file.slice(offset, Math.min(offset + CHUNK_SIZE, file.size))\<close>, decoded.\<close>

definition readChunk :: "nat \<Rightarrow> string \<Rightarrow> nat \<Rightarrow> string" where
  "readChunk CHUNK_SIZE file off =
     (let text = take (min (off + CHUNK_SIZE) (length file) - off) (drop off file)
      in if off = 0 then removeBOM text else text)"

subsection \<open>The tab branch\<close>

text \<open>From a line to the selected values of its row.\<close>

definition tsvSelectedValues :: "string list \<Rightarrow> nat list \<Rightarrow> string \<Rightarrow> string list" where
  "tsvSelectedValues hs selectedColumns line =
     (let processedValues = map unquoteField (splitOn TAB line);
          maxFields = min (length processedValues) (length hs);
          paddedValues = map (\<lambda>j. if j < maxFields then processedValues ! j else []) [0..<length hs]
      in map (\<lambda>idx. or_empty (js_index paddedValues idx)) selectedColumns)"

text \<open>The output part pushed for a line.\<close>

definition tsvPart :: "string list \<Rightarrow> nat list \<Rightarrow> string \<Rightarrow> string" where
  "tsvPart hs selectedColumns line =
     formatCSVLine (map Some (tsvSelectedValues hs selectedColumns line)) @ [LF]"

text \<open>The \<^verbatim>\<open>for\<close> loop over the lines of a chunk.\<close>

fun tsvLines :: "string list \<Rightarrow> nat list \<Rightarrow> string list \<Rightarrow> export_state \<Rightarrow> export_state" where
  "tsvLines hs selectedColumns [] st = st"
| "tsvLines hs selectedColumns (line # rest) st =
     (if line = [] then tsvLines hs selectedColumns rest st
      else tsvLines hs selectedColumns rest
             (st\<lparr>outputParts := outputParts st @ [tsvPart hs selectedColumns line],
                 totalProcessed := totalProcessed st + 1\<rparr>))"

text \<open>Where the combined text of a chunk is cut: \<^verbatim>\<open>lastNewline\<close>.\<close>

definition tsvLastNewline :: "nat \<Rightarrow> nat \<Rightarrow> nat \<Rightarrow> string \<Rightarrow> nat" where
  "tsvLastNewline CHUNK_SIZE fileSize off fullText =
     (if off + CHUNK_SIZE \<ge> fileSize then length fullText
      else (case lastIndexOf fullText LF of None \<Rightarrow> length fullText | Some k \<Rightarrow> k))"

text \<open>The body of the \<^verbatim>\<open>while\<close> loop.\<close>

definition tsvChunk :: "nat \<Rightarrow> string list \<Rightarrow> nat list \<Rightarrow> string \<Rightarrow> export_state \<Rightarrow> export_state" where
  "tsvChunk CHUNK_SIZE hs selectedColumns file st =
     (let fullText = remainder st @ readChunk CHUNK_SIZE file (offset st);
          lastNewline = tsvLastNewline CHUNK_SIZE (length file) (offset st) fullText;
          toProcess = take lastNewline fullText;
          st1 = st\<lparr>remainder :=
                     (if lastNewline < length fullText then drop (lastNewline + 1) fullText else [])\<rparr>;
          lines = splitLines toProcess;
          st2 = tsvLines hs selectedColumns (drop (if isFirstChunk st then 1 else 0) lines) st1
      in st2\<lparr>isFirstChunk := False,
             offset := offset st + CHUNK_SIZE,
             progress := progress st2 @ [percent (offset st + CHUNK_SIZE) (length file)]\<rparr>)"

text \<open>
  The \<^verbatim>\<open>while\<close> loop. \<^verbatim>\<open>CHUNK_SIZE\<close> is a positive constant of the source; with it as
  a parameter, the test \<open>0 < CHUNK_SIZE\<close> keeps the recursion well-founded.
\<close>

function tsvLoop :: "nat \<Rightarrow> string list \<Rightarrow> nat list \<Rightarrow> string \<Rightarrow> export_state \<Rightarrow> export_state" where
  "tsvLoop CHUNK_SIZE hs selectedColumns file st =
     (if offset st < length file \<and> 0 < CHUNK_SIZE
      then tsvLoop CHUNK_SIZE hs selectedColumns file (tsvChunk CHUNK_SIZE hs selectedColumns file st)
      else st)"
  by pat_completeness auto
termination
  by (relation "measure (\<lambda>(CHUNK_SIZE, hs, selectedColumns, file, st). length file - offset st)")
     (auto simp: tsvChunk_def Let_def)

text \<open>After the loop: the remainder, if it is not blank.\<close>

definition tsvRemainder :: "string list \<Rightarrow> nat list \<Rightarrow> export_state \<Rightarrow> export_state" where
  "tsvRemainder hs selectedColumns st =
     (if remainder st \<noteq> [] \<and> trim (remainder st) \<noteq> [] then
        (let processedValues = map unquoteField (splitOn TAB (remainder st));
             paddedValues =
               map (\<lambda>j. if j < length processedValues then processedValues ! j else []) [0..<length hs];
             selectedValues = map (\<lambda>idx. or_empty (js_index paddedValues idx)) selectedColumns
         in st\<lparr>outputParts := outputParts st @ [formatCSVLine (map Some selectedValues) @ [LF]],
               totalProcessed := totalProcessed st + 1\<rparr>)
      else st)"

subsection \<open>The branch of the other delimiters\<close>

text \<open>
  The inner loop of the backward scan: the number of quote characters before position
  \<open>i\<close>, counted from position \<open>j\<close> on, a doubled quote skipped.
\<close>

function quoteCount :: "string \<Rightarrow> nat \<Rightarrow> nat \<Rightarrow> nat" where
  "quoteCount fullText i j =
     (if j < i then
        (if js_index fullText j = Some QUOTE then
           (if j + 1 < length fullText \<and> js_index fullText (j + 1) = Some QUOTE
            then quoteCount fullText i (j + 2)
            else quoteCount fullText i (j + 1) + 1)
         else quoteCount fullText i (j + 1))
      else 0)"
  by pat_completeness auto
termination
  by (relation "measure (\<lambda>(fullText, i, j). i - j)") auto

text \<open>
  The backward scan for a line break outside quotes. The argument \<open>n\<close> is \<open>i + 1\<close> for the
  loop variable \<open>i\<close> of the source, so that the loop ends at \<open>n = 0\<close>; the test
  \<^verbatim>\<open>i >= fullText.length - 1000\<close> is \<open>length fullText \<le> n + 999\<close>. The result is
  \<^verbatim>\<open>lastCompleteLineEnd\<close>, which stays \<open>length fullText\<close> when the loop finds nothing.
\<close>

function scanBack :: "string \<Rightarrow> nat \<Rightarrow> bool \<Rightarrow> nat" where
  "scanBack fullText n inQuotes =
     (if n = 0 \<or> n + 999 < length fullText then length fullText
      else
        (let i = n - 1;
             inQuotes' =
               (if js_index fullText i = Some QUOTE then odd (quoteCount fullText i 0)
                else inQuotes)
         in if (js_index fullText i = Some LF \<or> js_index fullText i = Some CR) \<and> \<not> inQuotes'
            then
              (if js_index fullText i = Some CR \<and> i + 1 < length fullText \<and>
                  js_index fullText (i + 1) = Some LF
               then i + 2 else i + 1)
            else scanBack fullText (n - 1) inQuotes'))"
  by pat_completeness auto
termination
  by (relation "measure (\<lambda>(fullText, n, inQuotes). n)") auto

definition csvLastCompleteLineEnd :: "nat \<Rightarrow> nat \<Rightarrow> nat \<Rightarrow> string \<Rightarrow> nat" where
  "csvLastCompleteLineEnd CHUNK_SIZE fileSize off fullText =
     (if off + CHUNK_SIZE < fileSize then scanBack fullText (length fullText) False
      else length fullText)"

text \<open>From a parsed row to its selected values.\<close>

definition csvSelectedValues :: "string list \<Rightarrow> nat list \<Rightarrow> string list \<Rightarrow> string list" where
  "csvSelectedValues hs selectedColumns values =
     (let paddedValues = map (\<lambda>j. or_empty (js_index values j)) [0..<length hs]
      in map (\<lambda>idx. or_empty (js_index paddedValues idx)) selectedColumns)"

text \<open>The output part pushed for a parsed row.\<close>

definition csvPart :: "string list \<Rightarrow> nat list \<Rightarrow> string list \<Rightarrow> string" where
  "csvPart hs selectedColumns values =
     formatCSVLine (map Some (csvSelectedValues hs selectedColumns values)) @ [LF]"

text \<open>The \<^verbatim>\<open>for\<close> loop over the parsed rows of a chunk.\<close>

fun csvRows :: "string list \<Rightarrow> nat list \<Rightarrow> string list list \<Rightarrow> export_state \<Rightarrow> export_state" where
  "csvRows hs selectedColumns [] st = st"
| "csvRows hs selectedColumns (values # rest) st =
     (if values \<noteq> [] then
        (if list_ex (\<lambda>v. v \<noteq> []) (csvSelectedValues hs selectedColumns values)
         then csvRows hs selectedColumns rest
                (st\<lparr>outputParts := outputParts st @ [csvPart hs selectedColumns values],
                    totalProcessed := totalProcessed st + 1\<rparr>)
         else csvRows hs selectedColumns rest st)
      else csvRows hs selectedColumns rest st)"

text \<open>The body of the \<^verbatim>\<open>while\<close> loop.\<close>

definition csvChunk ::
  "nat \<Rightarrow> char \<Rightarrow> string list \<Rightarrow> nat list \<Rightarrow> string \<Rightarrow> export_state \<Rightarrow> export_state" where
  "csvChunk CHUNK_SIZE d hs selectedColumns file st =
     (let fullText = remainder st @ readChunk CHUNK_SIZE file (offset st);
          lastCompleteLineEnd = csvLastCompleteLineEnd CHUNK_SIZE (length file) (offset st) fullText;
          toProcess = take lastCompleteLineEnd fullText;
          st1 = st\<lparr>remainder := drop lastCompleteLineEnd fullText\<rparr>;
          parsedLines = parseCSVData toProcess d;
          st2 = csvRows hs selectedColumns (drop (if isFirstChunk st then 1 else 0) parsedLines) st1
      in st2\<lparr>isFirstChunk := False,
             offset := offset st + CHUNK_SIZE,
             progress := progress st2 @ [percent (offset st + CHUNK_SIZE) (length file)]\<rparr>)"

function csvLoop ::
  "nat \<Rightarrow> char \<Rightarrow> string list \<Rightarrow> nat list \<Rightarrow> string \<Rightarrow> export_state \<Rightarrow> export_state" where
  "csvLoop CHUNK_SIZE d hs selectedColumns file st =
     (if offset st < length file \<and> 0 < CHUNK_SIZE
      then csvLoop CHUNK_SIZE d hs selectedColumns file
             (csvChunk CHUNK_SIZE d hs selectedColumns file st)
      else st)"
  by pat_completeness auto
termination
  by (relation "measure (\<lambda>(CHUNK_SIZE, d, hs, selectedColumns, file, st). length file - offset st)")
     (auto simp: csvChunk_def Let_def)

text \<open>After the loop: the remainder, if it is not blank.\<close>

definition csvRemainder :: "char \<Rightarrow> string list \<Rightarrow> nat list \<Rightarrow> export_state \<Rightarrow> export_state" where
  "csvRemainder d hs selectedColumns st =
     (if trim (remainder st) \<noteq> []
      then csvRows hs selectedColumns (parseCSVData (remainder st) d) st
      else st)"

subsection \<open>The whole export\<close>

text \<open>
  The state before the first chunk: \<^verbatim>\<open>showProgress(0)\<close> has been called and the line of
  the selected headers is the first output part.
\<close>

definition initialState :: "string list \<Rightarrow> nat list \<Rightarrow> export_state" where
  "initialState hs selectedColumns =
     \<lparr>offset = 0,
      outputParts = [formatCSVLine (map (js_index hs) selectedColumns) @ [LF]],
      remainder = [],
      isFirstChunk = True,
      totalProcessed = 0,
      progress = [0]\<rparr>"

text \<open>
  \<^verbatim>\<open>exportFile\<close>, with the chunk size as a parameter. \<open>Inl SelectionError\<close> is the early
  return after \<^verbatim>\<open>showError\<close>; \<open>Inr st\<close> is the run that ends in the download of the
  blob made of \<open>outputParts st\<close>. The file name of the download is not modelled.
\<close>

definition exportFile_with :: "nat \<Rightarrow> session \<Rightarrow> nat list \<Rightarrow> string \<Rightarrow> error + export_state" where
  "exportFile_with CHUNK_SIZE s selectedColumns file =
     (if selectedColumns = [] then Inl SelectionError
      else if delimiter s = TAB then
        Inr (tsvRemainder (headers s) selectedColumns
              (tsvLoop CHUNK_SIZE (headers s) selectedColumns file
                (initialState (headers s) selectedColumns)))
      else
        Inr (csvRemainder (delimiter s) (headers s) selectedColumns
              (csvLoop CHUNK_SIZE (delimiter s) (headers s) selectedColumns file
                (initialState (headers s) selectedColumns))))"

text \<open>The text of the downloaded blob.\<close>

definition blobText :: "error + export_state \<Rightarrow> string option" where
  "blobText r = (case r of Inl e \<Rightarrow> None | Inr st \<Rightarrow> Some (concat (outputParts st)))"

subsection \<open>The export of the earlier variant (src/unnamed/part_000)\<close>

text \<open>
  One loop for every delimiter: the text is split at LF, the last piece is carried over as
  \<^verbatim>\<open>partialLine\<close> (the field \<open>remainder\<close> of the state), and every non-blank line is
  parsed by \<^verbatim>\<open>parseCSVLine\<close>.
\<close>

definition exportLine0 :: "char \<Rightarrow> nat list \<Rightarrow> string \<Rightarrow> string" where
  "exportLine0 d selectedColumns line =
     (let values = parseCSVLine0 line d;
          selectedValues = map (\<lambda>idx. or_empty (js_index values idx)) selectedColumns
      in formatCSVLine0 (map Some selectedValues) @ [LF])"

fun exportLines0 :: "char \<Rightarrow> nat list \<Rightarrow> string list \<Rightarrow> export_state \<Rightarrow> export_state" where
  "exportLines0 d selectedColumns [] st = st"
| "exportLines0 d selectedColumns (l # rest) st =
     (if trim l \<noteq> []
      then exportLines0 d selectedColumns rest
             (st\<lparr>outputParts := outputParts st @ [exportLine0 d selectedColumns (trim l)]\<rparr>)
      else exportLines0 d selectedColumns rest st)"

definition exportChunk0 :: "nat \<Rightarrow> char \<Rightarrow> nat list \<Rightarrow> string \<Rightarrow> export_state \<Rightarrow> export_state" where
  "exportChunk0 CHUNK_SIZE d selectedColumns file st =
     (let fullText = remainder st @ take CHUNK_SIZE (drop (offset st) file);
          lines = splitOn LF fullText;
          st1 = st\<lparr>remainder := last lines\<rparr>;
          completeLines = butlast lines;
          st2 = exportLines0 d selectedColumns (drop (if isFirstChunk st then 1 else 0) completeLines) st1
      in st2\<lparr>isFirstChunk := False,
             offset := offset st + CHUNK_SIZE,
             progress := progress st2 @ [percent (offset st + CHUNK_SIZE) (length file)]\<rparr>)"

function exportLoop0 :: "nat \<Rightarrow> char \<Rightarrow> nat list \<Rightarrow> string \<Rightarrow> export_state \<Rightarrow> export_state" where
  "exportLoop0 CHUNK_SIZE d selectedColumns file st =
     (if offset st < length file \<and> 0 < CHUNK_SIZE
      then exportLoop0 CHUNK_SIZE d selectedColumns file (exportChunk0 CHUNK_SIZE d selectedColumns file st)
      else st)"
  by pat_completeness auto
termination
  by (relation "measure (\<lambda>(CHUNK_SIZE, d, selectedColumns, file, st). length file - offset st)")
     (auto simp: exportChunk0_def Let_def)

definition exportFile0_with :: "nat \<Rightarrow> session \<Rightarrow> nat list \<Rightarrow> string \<Rightarrow> error + export_state" where
  "exportFile0_with CHUNK_SIZE s selectedColumns file =
     (if selectedColumns = [] then Inl SelectionError
      else
        (let st0 = \<lparr>offset = 0,
                    outputParts = [formatCSVLine0 (map (js_index (headers s)) selectedColumns) @ [LF]],
                    remainder = [],
                    isFirstChunk = True,
                    totalProcessed = 0,
                    progress = [0]\<rparr>;
             st = exportLoop0 CHUNK_SIZE (delimiter s) selectedColumns file st0
         in if trim (remainder st) \<noteq> []
            then Inr (st\<lparr>outputParts :=
                          outputParts st @ [exportLine0 (delimiter s) selectedColumns (remainder st)]\<rparr>)
            else Inr st))"

definition exportFile0 :: "session \<Rightarrow> nat list \<Rightarrow> string \<Rightarrow> error + export_state" where
  "exportFile0 = exportFile0_with (10 * 1024 * 1024)"

subsection \<open>What a caller observes of an export\<close>

text \<open>The parts of the downloaded blob, and the progress values shown, in order.\<close>

definition exportedParts :: "error + export_state \<Rightarrow> string list" where
  "exportedParts r = (case r of Inl e \<Rightarrow> [] | Inr st \<Rightarrow> outputParts st)"

definition progressReports :: "error + export_state \<Rightarrow> nat list" where
  "progressReports r = (case r of Inl e \<Rightarrow> [] | Inr st \<Rightarrow> progress st)"

text \<open>
  The number of turns that the \<^verbatim>\<open>while\<close> loop makes from the offset \<open>off\<close> on: the
  chunks of size \<open>CHUNK_SIZE\<close> needed to reach the end of the file.
\<close>

definition chunkTurns :: "nat \<Rightarrow> nat \<Rightarrow> nat \<Rightarrow> nat" where
  "chunkTurns CHUNK_SIZE fileSize off = (fileSize - off + CHUNK_SIZE - 1) div CHUNK_SIZE"

subsection \<open>Safe cuts\<close>

text \<open>
  A run of the export cuts the combined text of every chunk but the last. In the tab branch
  the cut of a chunk is called safe when a line feed was found and the text before it does
  not end in a carriage return; in the other branch, when the cut lies directly behind a
  line feed or carriage return, the number of quote characters before it is even and, in
  the first chunk, the text before it holds a row. \<open>tsvSafeRun\<close> and \<open>csvSafeRun\<close> say
  that every cut of the run from a given state on is safe; they follow the loop through
  the same chunk steps.
\<close>

definition tsvSafeCut :: "nat \<Rightarrow> string \<Rightarrow> export_state \<Rightarrow> bool" where
  "tsvSafeCut CHUNK_SIZE file st =
     (if offset st + CHUNK_SIZE \<ge> length file then True
      else
        (case lastIndexOf (remainder st @ readChunk CHUNK_SIZE file (offset st)) LF of
           None \<Rightarrow> False
         | Some k \<Rightarrow>
             \<not> endsWith (take k (remainder st @ readChunk CHUNK_SIZE file (offset st))) CR))"

function tsvSafeRun :: "nat \<Rightarrow> string list \<Rightarrow> nat list \<Rightarrow> string \<Rightarrow> export_state \<Rightarrow> bool" where
  "tsvSafeRun CHUNK_SIZE hs selectedColumns file st =
     (if offset st < length file \<and> 0 < CHUNK_SIZE
      then tsvSafeCut CHUNK_SIZE file st \<and>
           tsvSafeRun CHUNK_SIZE hs selectedColumns file
             (tsvChunk CHUNK_SIZE hs selectedColumns file st)
      else True)"
  by pat_completeness auto
termination
  by (relation "measure (\<lambda>(CHUNK_SIZE, hs, selectedColumns, file, st). length file - offset st)")
     (auto simp: tsvChunk_def Let_def)

text \<open>The number of quote characters of a text.\<close>

abbreviation quotes :: "string \<Rightarrow> nat" where
  "quotes t \<equiv> length (filter (\<lambda>c. c = QUOTE) t)"

definition csvSafeCut :: "nat \<Rightarrow> char \<Rightarrow> string \<Rightarrow> export_state \<Rightarrow> bool" where
  "csvSafeCut CHUNK_SIZE d file st =
     (if offset st + CHUNK_SIZE \<ge> length file then True
      else
        (let fullText = remainder st @ readChunk CHUNK_SIZE file (offset st);
             cut = csvLastCompleteLineEnd CHUNK_SIZE (length file) (offset st) fullText
         in 0 < cut \<and> cut \<le> length fullText \<and>
            (fullText ! (cut - 1) = LF \<or> fullText ! (cut - 1) = CR) \<and>
            even (quotes (take cut fullText)) \<and>
            (if isFirstChunk st then parseCSVData (take cut fullText) d \<noteq> [] else True)))"

function csvSafeRun ::
  "nat \<Rightarrow> char \<Rightarrow> string list \<Rightarrow> nat list \<Rightarrow> string \<Rightarrow> export_state \<Rightarrow> bool" where
  "csvSafeRun CHUNK_SIZE d hs selectedColumns file st =
     (if offset st < length file \<and> 0 < CHUNK_SIZE
      then csvSafeCut CHUNK_SIZE d file st \<and>
           csvSafeRun CHUNK_SIZE d hs selectedColumns file
             (csvChunk CHUNK_SIZE d hs selectedColumns file st)
      else True)"
  by pat_completeness auto
termination
  by (relation "measure (\<lambda>(CHUNK_SIZE, d, hs, selectedColumns, file, st). length file - offset st)")
     (auto simp: csvChunk_def Let_def)


subsection \<open>The constant chunk size of feedFilter.js\<close>

definition CHUNK_SIZE :: nat where
  "CHUNK_SIZE = 5 * 1024 * 1024"

definition exportFile :: "session \<Rightarrow> nat list \<Rightarrow> string \<Rightarrow> error + export_state" where
  "exportFile = exportFile_with CHUNK_SIZE"

section \<open>Basic facts\<close>

declare tsvLoop.simps [simp del] csvLoop.simps [simp del] exportLoop0.simps [simp del]
  quoteCount.simps [simp del] scanBack.simps [simp del] showNat.simps [simp del]
  tsvSafeRun.simps [simp del] csvSafeRun.simps [simp del]
  roundUp.simps [simp del] roundDown.simps [simp del]

lemma nextChar_simps [simp]: "nextChar [] = None" "nextChar (x # r) = Some x"
  by (simp_all add: nextChar_def)



lemma removeBOM_id [simp]: "removeBOM s = s"
proof (cases s)
  case Nil
  then show ?thesis by (simp add: removeBOM_def)
next
  case (Cons c cs)
  have "of_char c < (256 :: nat)" by simp
  then have "(of_char c :: nat) \<noteq> 0xFEFF" by linarith
  with Cons show ?thesis by (simp add: removeBOM_def)
qed

lemma floor_numeral_div: "\<lfloor>numeral a / numeral b :: rat\<rfloor> = numeral a div numeral b"
  using floor_divide_of_int_eq [of "numeral a" "numeral b", where ?'a = rat] by simp

text \<open>The equations by which the model is evaluated on a concrete input.\<close>

text \<open>
  The rounding is unfolded at numerals only, so that an argument is evaluated before the
  equations of \<open>roundDouble\<close> make copies of it.
\<close>

lemmas roundDouble_numeral =
  roundDouble_def [of 0] roundDouble_def [of 1] roundDouble_def [of "numeral a"]
  roundDouble_def [of "numeral a / numeral b"] roundDouble_def [of "1 / numeral b"]
  roundDouble_def [of "- 1"] roundDouble_def [of "- numeral a"]
  roundDouble_def [of "- (numeral a / numeral b)"] roundDouble_def [of "- numeral a / numeral b"]
  roundDouble_def [of "- (1 / numeral b)"] roundDouble_def [of "- 1 / numeral b"]
  roundDown.simps [of 1] roundDown.simps [of "numeral a"]
  roundDown.simps [of "numeral a / numeral b"] roundDown.simps [of "1 / numeral b"]
  roundUp.simps [of 0] roundUp.simps [of 1] roundUp.simps [of "numeral a"]
  roundUp.simps [of "numeral a / numeral b"] roundUp.simps [of "1 / numeral b"]
  roundHalfEven_def [of 1] roundHalfEven_def [of "numeral a"]
  roundHalfEven_def [of "numeral a / numeral b"]
  for a b

lemmas double_simps =
  dadd_def dsub_def dmul_def ddiv_def mathRound_def roundDouble_numeral floor_numeral_div Let_def

lemmas detect_simps = detectDelimiter_def sampleLines_def delimiterCounts_def lineCounts_def
  candidates_def considerDelimiter_def consistency_def

lemmas eval_simps =
  exportFile_with_def exportFile_def CHUNK_SIZE_def initialState_def exportedParts_def
  csvLoop.simps csvChunk_def csvRemainder_def csvSelectedValues_def csvLastCompleteLineEnd_def
  csvPart_def tsvPart_def
  tsvLoop.simps tsvChunk_def tsvRemainder_def tsvSelectedValues_def tsvLastNewline_def
  scanBack.simps quoteCount.simps readChunk_def percent_def
  parseCSVData_def parseCSVData_finish_def parseCSVData_step_def nonEmptyLine_def MAX_FIELD_SIZE_def
  formatCSVLine_def formatCSVValue_def needsQuotes_def startsWith_def endsWith_def
  js_index_def or_empty_def unquoteField_def trim_def isWhiteSpace_def double_simps

section \<open>Properties of the rounding\<close>

lemma roundHalfEven_bounds: "\<lfloor>a\<rfloor> \<le> roundHalfEven a" "roundHalfEven a \<le> \<lfloor>a\<rfloor> + 1"
  by (simp_all add: roundHalfEven_def Let_def)

lemma roundHalfEven_of_int [simp]: "roundHalfEven (of_int n) = n"
  by (simp add: roundHalfEven_def Let_def)

lemma roundHalfEven_0 [simp]: "roundHalfEven 0 = 0"
  using roundHalfEven_of_int [of 0] by simp

lemma roundHalfEven_mono: "a \<le> b \<Longrightarrow> roundHalfEven a \<le> roundHalfEven b"
proof -
  assume ab: "a \<le> b"
  then have f: "\<lfloor>a\<rfloor> \<le> \<lfloor>b\<rfloor>"
    by (rule floor_mono)
  show ?thesis
  proof (cases "\<lfloor>a\<rfloor> = \<lfloor>b\<rfloor>")
    case True
    then have "a - of_int \<lfloor>a\<rfloor> \<le> b - of_int \<lfloor>b\<rfloor>"
      using ab by simp
    then show ?thesis
      using True by (auto simp: roundHalfEven_def Let_def)
  next
    case False
    with f have "\<lfloor>a\<rfloor> + 1 \<le> \<lfloor>b\<rfloor>"
      by simp
    with roundHalfEven_bounds(2) [of a] roundHalfEven_bounds(1) [of b] show ?thesis
      by linarith
  qed
qed

text \<open>\<open>normal x e\<close>: the number \<open>x\<close> has the binary exponent \<open>e + 52\<close>.\<close>

definition normal :: "rat \<Rightarrow> int \<Rightarrow> bool" where
  "normal x e \<longleftrightarrow> 2 ^ 52 * 2 powi e \<le> x \<and> x < 2 ^ 53 * 2 powi e"

lemma roundUp_normal:
  "0 < x \<Longrightarrow> x < 2 ^ 53 \<Longrightarrow>
     \<exists>e. normal x e \<and> roundUp x = of_int (roundHalfEven (x / 2 powi e)) * 2 powi e"
proof (induction x rule: roundUp.induct)
  case (1 x)
  show ?case
  proof (cases "x < 2 ^ 52")
    case True
    have "0 < 2 * x" "2 * x < 2 ^ 53"
      using True "1.prems" by simp_all
    from "1.IH" [OF _ this] True "1.prems"
    obtain e where e: "normal (2 * x) e"
      "roundUp (2 * x) = of_int (roundHalfEven (2 * x / 2 powi e)) * 2 powi e"
      by auto
    have p: "(2::rat) powi (e - 1) = 2 powi e / 2"
      by (simp add: power_int_diff)
    have "normal x (e - 1)"
      using e(1) unfolding normal_def p by simp
    moreover have "roundUp x = of_int (roundHalfEven (x / 2 powi (e - 1))) * 2 powi (e - 1)"
      using True "1.prems" e(2) unfolding p by (subst roundUp.simps) (simp add: mult.commute)
    ultimately show ?thesis
      by blast
  next
    case False
    then have "normal x 0"
      using "1.prems" by (simp add: normal_def)
    moreover have "roundUp x = of_int (roundHalfEven (x / 2 powi 0)) * 2 powi 0"
      using False by (subst roundUp.simps) simp
    ultimately show ?thesis
      by blast
  qed
qed

lemma roundDown_normal:
  "0 < x \<Longrightarrow> \<exists>e. normal x e \<and> roundDown x = of_int (roundHalfEven (x / 2 powi e)) * 2 powi e"
proof (induction x rule: roundDown.induct)
  case (1 x)
  show ?case
  proof (cases "2 ^ 53 \<le> x")
    case True
    have "0 < x / 2"
      using "1.prems" by simp
    from "1.IH" [OF True this]
    obtain e where e: "normal (x / 2) e"
      "roundDown (x / 2) = of_int (roundHalfEven (x / 2 / 2 powi e)) * 2 powi e"
      by auto
    have p: "(2::rat) powi (e + 1) = 2 powi e * 2"
      by (simp add: power_int_add)
    have "normal x (e + 1)"
      using e(1) unfolding normal_def p by simp
    moreover have "roundDown x = of_int (roundHalfEven (x / 2 powi (e + 1))) * 2 powi (e + 1)"
      using True e(2) unfolding p by (subst roundDown.simps) (simp add: mult.commute)
    ultimately show ?thesis
      by blast
  next
    case False
    then have "roundDown x = roundUp x"
      by (subst roundDown.simps) simp
    with roundUp_normal [of x] False "1.prems" show ?thesis
      by simp
  qed
qed

lemma normal_round:
  assumes "normal x e"
  shows "2 ^ 52 * 2 powi e \<le> (of_int (roundHalfEven (x / 2 powi e)) :: rat) * 2 powi e"
    and "(of_int (roundHalfEven (x / 2 powi e)) :: rat) * 2 powi e \<le> 2 ^ 53 * 2 powi e"
proof -
  have s: "(0::rat) < 2 powi e"
    by simp
  have "2 ^ 52 \<le> x / 2 powi e" "x / 2 powi e \<le> 2 ^ 53"
    using assms s by (simp_all add: normal_def pos_le_divide_eq pos_divide_le_eq)
  then have "roundHalfEven (of_int (2 ^ 52)) \<le> roundHalfEven (x / 2 powi e)"
    "roundHalfEven (x / 2 powi e) \<le> roundHalfEven (of_int (2 ^ 53))"
    by (intro roundHalfEven_mono; simp)+
  then have "(2::int) ^ 52 \<le> roundHalfEven (x / 2 powi e)"
    "roundHalfEven (x / 2 powi e) \<le> (2::int) ^ 53"
    unfolding roundHalfEven_of_int by simp_all
  then have "(of_int (2 ^ 52) :: rat) \<le> of_int (roundHalfEven (x / 2 powi e))"
    "(of_int (roundHalfEven (x / 2 powi e)) :: rat) \<le> of_int (2 ^ 53)"
    unfolding of_int_le_iff by simp_all
  then show "2 ^ 52 * 2 powi e \<le> (of_int (roundHalfEven (x / 2 powi e)) :: rat) * 2 powi e"
    and "(of_int (roundHalfEven (x / 2 powi e)) :: rat) * 2 powi e \<le> 2 ^ 53 * 2 powi e"
    using s by simp_all
qed

lemma roundDown_pos: "0 < x \<Longrightarrow> 0 < roundDown x"
proof -
  assume "0 < x"
  from roundDown_normal [OF this] obtain e where e: "normal x e"
    "roundDown x = of_int (roundHalfEven (x / 2 powi e)) * 2 powi e"
    by blast
  have "(0::rat) < 2 ^ 52 * 2 powi e"
    by simp
  with normal_round(1) [OF e(1)] show ?thesis
    unfolding e(2) by linarith
qed

lemma roundDown_0 [simp]: "roundDown 0 = 0"
  by (simp add: roundDown.simps roundUp.simps)

lemma roundDown_mono:
  assumes "0 < x" "x \<le> y"
  shows "roundDown x \<le> roundDown y"
proof -
  from roundDown_normal [OF assms(1)] obtain e where e: "normal x e"
    "roundDown x = of_int (roundHalfEven (x / 2 powi e)) * 2 powi e"
    by blast
  have "0 < y"
    using assms by simp
  from roundDown_normal [OF this] obtain f where f: "normal y f"
    "roundDown y = of_int (roundHalfEven (y / 2 powi f)) * 2 powi f"
    by blast
  have ef: "e \<le> f"
  proof (rule ccontr)
    assume "\<not> e \<le> f"
    then have "f + 1 \<le> e"
      by simp
    then have "(2::rat) powi (f + 1) \<le> 2 powi e"
      by (intro power_int_increasing) simp_all
    then have "2 ^ 53 * (2::rat) powi f \<le> 2 ^ 52 * 2 powi e"
      by (simp add: power_int_add)
    with e(1) f(1) assms(2) show False
      unfolding normal_def by linarith
  qed
  show ?thesis
  proof (cases "e = f")
    case True
    have "x / 2 powi f \<le> y / 2 powi f"
      using assms(2) by (simp add: divide_right_mono)
    then have "roundHalfEven (x / 2 powi f) \<le> roundHalfEven (y / 2 powi f)"
      by (rule roundHalfEven_mono)
    then have "(of_int (roundHalfEven (x / 2 powi f)) :: rat) \<le> of_int (roundHalfEven (y / 2 powi f))"
      by simp
    then show ?thesis
      unfolding e(2) f(2) True by (simp add: mult_right_mono)
  next
    case False
    with ef have "e + 1 \<le> f"
      by simp
    then have "(2::rat) powi (e + 1) \<le> 2 powi f"
      by (intro power_int_increasing) simp_all
    then have "2 ^ 53 * (2::rat) powi e \<le> 2 ^ 52 * 2 powi f"
      by (simp add: power_int_add)
    with normal_round(2) [OF e(1)] normal_round(1) [OF f(1)] show ?thesis
      unfolding e(2) f(2) by linarith
  qed
qed

lemma roundDouble_pos: "0 < x \<Longrightarrow> 0 < roundDouble x"
  by (simp add: roundDouble_def roundDown_pos)

lemma roundDouble_nonneg: "0 \<le> x \<Longrightarrow> 0 \<le> roundDouble x"
  using roundDouble_pos [of x] by (cases "x = 0") (auto simp: roundDouble_def)

lemma roundDouble_mono: "0 \<le> x \<Longrightarrow> x \<le> y \<Longrightarrow> roundDouble x \<le> roundDouble y"
proof (cases "x = 0")
  case True
  assume "0 \<le> x" "x \<le> y"
  then show ?thesis
    using True roundDouble_nonneg [of y] by (simp add: roundDouble_def)
next
  case False
  assume "0 \<le> x" "x \<le> y"
  with False show ?thesis
    using roundDown_mono [of x y] by (simp add: roundDouble_def)
qed

lemma roundDouble_exact: "roundDouble 1 = 1" "roundDouble 100 = 100"
  by (simp_all add: double_simps)

section \<open>Properties of the encoder and of the line parser\<close>

lemma dropWhile_last: "dropWhile P xs \<noteq> [] \<Longrightarrow> last (dropWhile P xs) = last xs"
  by (induction xs) (auto split: if_splits)

lemma dropWhile_id: "xs = [] \<or> \<not> P (hd xs) \<Longrightarrow> dropWhile P xs = xs"
  by (cases xs) auto

lemma trim_ends:
  "trim s = [] \<or> (\<not> isWhiteSpace (hd (trim s)) \<and> \<not> isWhiteSpace (last (trim s)))"
proof (cases "trim s = []")
  case True
  then show ?thesis by simp
next
  case False
  define t where "t = dropWhile isWhiteSpace s"
  define u where "u = dropWhile isWhiteSpace (rev t)"
  have tr: "trim s = rev u"
    by (simp add: trim_def t_def u_def)
  with False have u: "u \<noteq> []"
    by simp
  then have rt: "rev t \<noteq> []"
    by (auto simp: u_def)
  have 1: "\<not> isWhiteSpace (hd u)"
    using u unfolding u_def by (rule hd_dropWhile)
  have "last u = last (rev t)"
    using u unfolding u_def by (rule dropWhile_last)
  also have "\<dots> = hd t"
    using rt by (simp add: last_rev)
  finally have 2: "last u = hd t" .
  have "t \<noteq> []"
    using rt by simp
  then have 3: "\<not> isWhiteSpace (hd t)"
    unfolding t_def by (rule hd_dropWhile)
  show ?thesis
    using 1 2 3 u by (simp add: tr hd_rev last_rev)
qed

lemma trim_fix:
  "s = [] \<or> (\<not> isWhiteSpace (hd s) \<and> \<not> isWhiteSpace (last s)) \<Longrightarrow> trim s = s"
  by (auto simp: trim_def dropWhile_id hd_rev)

lemma trim_idem: "trim (trim s) = trim s"
  using trim_ends [of s] by (intro trim_fix) auto

lemma length_escapeQuotes: "length v \<le> length (escapeQuotes v)"
  by (induction v) auto

lemma escapeQuotes_concat:
  "escapeQuotes v = concat (map (\<lambda>c. if c = QUOTE then [QUOTE, QUOTE] else [c]) v)"
  by (induction v) auto

lemma not_wrapped: "v \<noteq> QUOTE # escapeQuotes v @ [QUOTE]"
proof
  assume "v = QUOTE # escapeQuotes v @ [QUOTE]"
  then have "length v = length (QUOTE # escapeQuotes v @ [QUOTE])"
    by simp
  with length_escapeQuotes [of v] show False
    by simp
qed

lemma parseCSVLine_loop_trim:
  "parseCSVLine_loop d (map trim result) current q line =
     map trim (parseCSVLine0_loop d result current q line)"
  by (induction d result current q line rule: parseCSVLine0_loop.induct) auto

lemma parseCSVLine_eq_trim: "parseCSVLine line d = map trim (parseCSVLine0 line d)"
  using parseCSVLine_loop_trim [of d "[]"] by (simp add: parseCSVLine_def parseCSVLine0_def)

lemma parseCSVLine0_quoted:
  "parseCSVLine0_loop d result current True (escapeQuotes v @ [QUOTE]) = result @ [current @ v]"
  by (induction v arbitrary: current) (auto simp: nextChar_def)

lemma parseCSVLine0_plain:
  "QUOTE \<notin> set v \<Longrightarrow> d \<notin> set v \<Longrightarrow>
     parseCSVLine0_loop d result current False v = result @ [current @ v]"
  by (induction v arbitrary: current) (auto simp: nextChar_def)

lemma decode0_encode: "parseCSVLine0 (formatCSVLine [Some v]) COMMA = [v]"
  by (simp add: parseCSVLine0_def formatCSVLine_def formatCSVValue_def needsQuotes_def
      parseCSVLine0_quoted parseCSVLine0_plain)

lemma decode0_encode0: "parseCSVLine0 (formatCSVLine0 [Some v]) COMMA = [v]"
  by (simp add: parseCSVLine0_def formatCSVLine0_def formatCSVValue0_def
      parseCSVLine0_quoted parseCSVLine0_plain)

text \<open>
  Claim C3, as the code has it. In feedFilter.js a field value is wrapped in double quotes,
  its internal double quotes doubled, if and only if it contains a comma, a double quote, a
  line feed or a carriage return, or begins or ends with a space character (U+0020, not any
  white space); otherwise it is emitted verbatim. The encoder of the earlier variant wraps
  if and only if the value contains a comma, a double quote or a line feed.
\<close>

theorem formatCSVValue_wraps_iff:
  "((formatCSVValue (Some v) = QUOTE # escapeQuotes v @ [QUOTE]) =
      (COMMA \<in> set v \<or> QUOTE \<in> set v \<or> LF \<in> set v \<or> CR \<in> set v \<or>
       (v \<noteq> [] \<and> hd v = SPACE) \<or> (v \<noteq> [] \<and> last v = SPACE))) \<and>
   ((formatCSVValue (Some v) = v) =
      (\<not> (COMMA \<in> set v \<or> QUOTE \<in> set v \<or> LF \<in> set v \<or> CR \<in> set v \<or>
       (v \<noteq> [] \<and> hd v = SPACE) \<or> (v \<noteq> [] \<and> last v = SPACE)))) \<and>
   escapeQuotes v = concat (map (\<lambda>c. if c = QUOTE then [QUOTE, QUOTE] else [c]) v) \<and>
   ((formatCSVValue0 (Some v) = QUOTE # escapeQuotes v @ [QUOTE]) =
      (COMMA \<in> set v \<or> QUOTE \<in> set v \<or> LF \<in> set v)) \<and>
   ((formatCSVValue0 (Some v) = v) = (\<not> (COMMA \<in> set v \<or> QUOTE \<in> set v \<or> LF \<in> set v))) \<and>
   formatCSVLine [Some v] = formatCSVValue (Some v)"
proof -
  have n: "needsQuotes v =
      (COMMA \<in> set v \<or> QUOTE \<in> set v \<or> LF \<in> set v \<or> CR \<in> set v \<or>
       (v \<noteq> [] \<and> hd v = SPACE) \<or> (v \<noteq> [] \<and> last v = SPACE))"
    by (cases v) (auto simp: needsQuotes_def startsWith_def endsWith_def)
  have w: "v \<noteq> QUOTE # escapeQuotes v @ [QUOTE]" "QUOTE # escapeQuotes v @ [QUOTE] \<noteq> v"
    using not_wrapped [of v] by auto
  have 1: "(formatCSVValue (Some v) = QUOTE # escapeQuotes v @ [QUOTE]) = needsQuotes v"
    using w by (simp add: formatCSVValue_def)
  have 2: "(formatCSVValue (Some v) = v) = (\<not> needsQuotes v)"
    using w by (simp add: formatCSVValue_def)
  have 3: "(formatCSVValue0 (Some v) = QUOTE # escapeQuotes v @ [QUOTE]) =
      (COMMA \<in> set v \<or> QUOTE \<in> set v \<or> LF \<in> set v)"
    using w by (simp add: formatCSVValue0_def)
  have 4: "(formatCSVValue0 (Some v) = v) = (\<not> (COMMA \<in> set v \<or> QUOTE \<in> set v \<or> LF \<in> set v))"
    using w by (simp add: formatCSVValue0_def)
  show ?thesis
    unfolding 1 2 3 4 n [symmetric] by (simp add: escapeQuotes_concat [symmetric] formatCSVLine_def)
qed

text \<open>
  The claim C3 as the specification words it fails: a value with a leading tab has leading
  white space, yet it is emitted verbatim.
\<close>

theorem formatCSVValue_tab_counterexample:
  "isWhiteSpace (hd [TAB, CHR ''x'']) \<and>
   formatCSVValue (Some [TAB, CHR ''x'']) = [TAB, CHR ''x''] \<and>
   formatCSVValue (Some [TAB, CHR ''x'']) \<noteq> QUOTE # escapeQuotes [TAB, CHR ''x''] @ [QUOTE]"
  by (simp add: formatCSVValue_def needsQuotes_def startsWith_def endsWith_def isWhiteSpace_def)

text \<open>
  Claim C4, as the code has it. Decoding the encoded field with \<^verbatim>\<open>parseCSVLine\<close> of
  feedFilter.js, delimiter comma, gives the original string with its leading and trailing
  white space removed (the parser trims every field), so it is the original string exactly
  when that has no white space at either end; the parser of the earlier variant, which does
  not trim, recovers every string exactly. The field \<^verbatim>\<open>He said "hi", bye\<close> encodes to
  \<^verbatim>\<open>"He said ""hi"", bye"\<close>.
\<close>

theorem decode_encode_field:
  "parseCSVLine (formatCSVLine [Some v]) COMMA = [trim v] \<and>
   parseCSVLine0 (formatCSVLine [Some v]) COMMA = [v] \<and>
   parseCSVLine0 (formatCSVLine0 [Some v]) COMMA = [v] \<and>
   formatCSVLine [Some (''He said '' @ [QUOTE] @ ''hi'' @ [QUOTE] @ '', bye'')] =
     [QUOTE] @ ''He said '' @ [QUOTE, QUOTE] @ ''hi'' @ [QUOTE, QUOTE] @ '', bye'' @ [QUOTE]"
proof -
  have "formatCSVLine [Some (''He said '' @ [QUOTE] @ ''hi'' @ [QUOTE] @ '', bye'')] =
     [QUOTE] @ ''He said '' @ [QUOTE, QUOTE] @ ''hi'' @ [QUOTE, QUOTE] @ '', bye'' @ [QUOTE]"
    by (simp add: formatCSVLine_def formatCSVValue_def needsQuotes_def)
  then show ?thesis
    by (simp only: parseCSVLine_eq_trim decode0_encode decode0_encode0) simp
qed

text \<open>
  The claim C4 as the specification words it fails: the field \<open>'' a''\<close> is encoded with
  quotes, and the parser of feedFilter.js decodes it to \<open>''a''\<close>.
\<close>

theorem decode_encode_counterexample:
  "parseCSVLine (formatCSVLine [Some '' a'']) COMMA = [''a''] \<and>
   parseCSVLine (formatCSVLine [Some '' a'']) COMMA \<noteq> ['' a'']"
  by (simp add: parseCSVLine_def formatCSVLine_def formatCSVValue_def needsQuotes_def
      startsWith_def nextChar_def trim_def isWhiteSpace_def)

text \<open>
  Claim C10. \<^verbatim>\<open>parseCSVLine\<close> of feedFilter.js returns every field trimmed: each field is
  the trimmed form of the field that the same scan without \<^verbatim>\<open>trim\<close> yields, no returned
  field begins or ends with white space, and a quote-wrapped field loses the spaces at the
  ends of its content: \<^verbatim>\<open>" a "\<close> parses to \<open>''a''\<close>.
\<close>

theorem parseCSVLine_trims_fields:
  "parseCSVLine line d = map trim (parseCSVLine0 line d) \<and>
   list_all (\<lambda>f. f = [] \<or> (\<not> isWhiteSpace (hd f) \<and> \<not> isWhiteSpace (last f)))
     (parseCSVLine line d) \<and>
   parseCSVLine ([QUOTE] @ '' a '' @ [QUOTE]) COMMA = [''a''] \<and>
   parseCSVLine0 ([QUOTE] @ '' a '' @ [QUOTE]) COMMA = ['' a '']"
proof -
  have "list_all (\<lambda>f. f = [] \<or> (\<not> isWhiteSpace (hd f) \<and> \<not> isWhiteSpace (last f)))
     (map trim (parseCSVLine0 line d))"
    using trim_ends by (simp add: list_all_iff)
  moreover have "parseCSVLine ([QUOTE] @ '' a '' @ [QUOTE]) COMMA = [''a'']"
    by (simp add: parseCSVLine_def nextChar_def trim_def isWhiteSpace_def)
  moreover have "parseCSVLine0 ([QUOTE] @ '' a '' @ [QUOTE]) COMMA = ['' a '']"
    by (simp add: parseCSVLine0_def nextChar_def)
  ultimately show ?thesis
    by (simp add: parseCSVLine_eq_trim)
qed

text \<open>
  Claim C7. With an empty column selection \<^verbatim>\<open>exportFile\<close> returns the selection error
  whatever the file, the delimiter and the headers are: no chunk is read, no output part is
  made and nothing is downloaded. The earlier variant does the same.
\<close>

theorem exportFile_empty_selection:
  "exportFile_with n s [] file = Inl SelectionError \<and>
   exportFile s [] file = Inl SelectionError \<and>
   exportFile0_with n s [] file = Inl SelectionError \<and>
   exportFile0 s [] file = Inl SelectionError \<and>
   blobText (exportFile s [] file) = None \<and>
   exportedParts (exportFile s [] file) = [] \<and>
   progressReports (exportFile s [] file) = []"
  by (simp add: exportFile_def exportFile_with_def exportFile0_def exportFile0_with_def blobText_def
      exportedParts_def progressReports_def)

section \<open>Properties of the delimiter detector\<close>

lemma fold_sum_pos: "0 < acc \<Longrightarrow> 0 < fold (\<lambda>b a. dadd a (of_nat b)) counts acc"
proof (induction counts arbitrary: acc)
  case Nil
  then show ?case by simp
next
  case (Cons c cs)
  have "0 < acc + of_nat c"
    using Cons.prems by (simp add: add_pos_nonneg)
  then have "0 < dadd acc (of_nat c)"
    unfolding dadd_def by (rule roundDouble_pos)
  then show ?case
    using Cons.IH by simp
qed

lemma fold_squares_nonneg:
  "0 \<le> acc \<Longrightarrow> 0 \<le> fold (\<lambda>count sum. dadd sum (dmul (f count) (f count))) counts acc"
proof (induction counts arbitrary: acc)
  case Nil
  then show ?case by simp
next
  case (Cons c cs)
  have "0 \<le> dmul (f c) (f c)"
    unfolding dmul_def by (rule roundDouble_nonneg) simp
  then have "0 \<le> dadd acc (dmul (f c) (f c))"
    unfolding dadd_def using Cons.prems by (intro roundDouble_nonneg) simp
  then show ?case
    using Cons.IH by simp
qed

lemma consistency_pos:
  assumes "counts \<noteq> []" "hd counts \<noteq> 0"
  shows "0 < consistency counts"
proof -
  define n :: rat where "n = of_nat (length counts)"
  define a where "a = ddiv (fold (\<lambda>b a. dadd a (of_nat b)) counts 0) n"
  define v where "v = ddiv (fold (\<lambda>count sum. dadd sum (dmul (dsub (of_nat count) a)
      (dsub (of_nat count) a))) counts 0) n"
  have n: "0 < n"
    using assms(1) by (simp add: n_def)
  obtain c cs where counts: "counts = c # cs"
    using assms(1) by (cases counts) auto
  with assms(2) have "0 < dadd 0 (of_nat c)"
    unfolding dadd_def by (intro roundDouble_pos) simp
  then have "0 < fold (\<lambda>b a. dadd a (of_nat b)) counts 0"
    unfolding counts using fold_sum_pos [of "dadd 0 (of_nat c)" cs] by simp
  then have avg: "0 < a"
    unfolding a_def ddiv_def using n by (intro roundDouble_pos) simp
  have "0 \<le> fold (\<lambda>count sum. dadd sum (dmul (dsub (of_nat count) a) (dsub (of_nat count) a))) counts 0"
    by (rule fold_squares_nonneg) simp
  then have var: "0 \<le> v"
    unfolding v_def ddiv_def using n by (intro roundDouble_nonneg) simp
  have c: "consistency counts = dmul (ddiv 1 (dadd 1 v)) a"
    using avg by (simp add: consistency_def Let_def n_def [symmetric] a_def [symmetric] v_def [symmetric])
  have "0 < dadd 1 v"
    unfolding dadd_def using var by (intro roundDouble_pos) simp
  then have "0 < ddiv 1 (dadd 1 v)"
    unfolding ddiv_def by (intro roundDouble_pos) simp
  then show ?thesis
    unfolding c dmul_def using avg by (intro roundDouble_pos mult_pos_pos)
qed

lemma fold_consider:
  assumes "fold (considerDelimiter dc) ds (b, s) = (b', s')"
  shows "((b', s') = (b, s) \<and> (\<forall>d\<in>set ds. eligible dc d \<longrightarrow> consistency (dc d) \<le> s)) \<or>
         (\<exists>pre post. ds = pre @ b' # post \<and> eligible dc b' \<and> s' = consistency (dc b') \<and> s < s' \<and>
            (\<forall>d\<in>set pre. eligible dc d \<longrightarrow> consistency (dc d) < s') \<and>
            (\<forall>d\<in>set post. eligible dc d \<longrightarrow> consistency (dc d) \<le> s'))"
  using assms
proof (induction ds arbitrary: b s)
  case Nil
  then show ?case by simp
next
  case (Cons d ds)
  show ?case
  proof (cases "eligible dc d \<and> s < consistency (dc d)")
    case True
    then have step: "considerDelimiter dc d (b, s) = (d, consistency (dc d))"
      by (simp add: considerDelimiter_def eligible_def Let_def)
    with Cons.prems have f: "fold (considerDelimiter dc) ds (d, consistency (dc d)) = (b', s')"
      by simp
    from Cons.IH [OF f] show ?thesis
    proof (elim disjE conjE exE)
      assume a: "(b', s') = (d, consistency (dc d))"
         and b: "\<forall>x\<in>set ds. eligible dc x \<longrightarrow> consistency (dc x) \<le> consistency (dc d)"
      have "d # ds = [] @ b' # ds" using a by simp
      then show ?thesis using a b True by (intro disjI2 exI [of _ "[]"] exI [of _ ds]) simp
    next
      fix pre post
      assume a: "ds = pre @ b' # post" "eligible dc b'" "s' = consistency (dc b')"
        "consistency (dc d) < s'"
        "\<forall>x\<in>set pre. eligible dc x \<longrightarrow> consistency (dc x) < s'"
        "\<forall>x\<in>set post. eligible dc x \<longrightarrow> consistency (dc x) \<le> s'"
      have 1: "d # ds = (d # pre) @ b' # post" using a(1) by simp
      have 2: "\<forall>x\<in>set (d # pre). eligible dc x \<longrightarrow> consistency (dc x) < s'"
        using a(4,5) by simp
      have 3: "s < s'" using True a(4) by simp
      show ?thesis using 1 2 3 a(2,3,6) by (intro disjI2 exI [of _ "d # pre"] exI [of _ post]) simp
    qed
  next
    case False
    then have step: "considerDelimiter dc d (b, s) = (b, s)"
      by (auto simp: considerDelimiter_def eligible_def Let_def)
    with Cons.prems have f: "fold (considerDelimiter dc) ds (b, s) = (b', s')"
      by simp
    from Cons.IH [OF f] show ?thesis
    proof (elim disjE conjE exE)
      assume a: "(b', s') = (b, s)"
         and b: "\<forall>x\<in>set ds. eligible dc x \<longrightarrow> consistency (dc x) \<le> s"
      then show ?thesis using False by auto
    next
      fix pre post
      assume a: "ds = pre @ b' # post" "eligible dc b'" "s' = consistency (dc b')"
        "s < s'"
        "\<forall>x\<in>set pre. eligible dc x \<longrightarrow> consistency (dc x) < s'"
        "\<forall>x\<in>set post. eligible dc x \<longrightarrow> consistency (dc x) \<le> s'"
      have 1: "d # ds = (d # pre) @ b' # post" using a(1) by simp
      have 2: "\<forall>x\<in>set (d # pre). eligible dc x \<longrightarrow> consistency (dc x) < s'"
        using a(4,5) False by auto
      show ?thesis using 1 2 a(2,3,4,6) by (intro disjI2 exI [of _ "d # pre"] exI [of _ post]) simp
    qed
  qed
qed

lemma detect_cases:
  assumes "sampleLines text \<noteq> []"
  shows "(detectDelimiter text = COMMA \<and> (\<forall>d\<in>set candidates. \<not> eligible (delimiterCounts text) d)) \<or>
         (\<exists>pre post. candidates = pre @ detectDelimiter text # post \<and>
            eligible (delimiterCounts text) (detectDelimiter text) \<and>
            (\<forall>d\<in>set pre. eligible (delimiterCounts text) d \<longrightarrow>
               consistency (delimiterCounts text d) < consistency (delimiterCounts text (detectDelimiter text))) \<and>
            (\<forall>d\<in>set post. eligible (delimiterCounts text) d \<longrightarrow>
               consistency (delimiterCounts text d) \<le> consistency (delimiterCounts text (detectDelimiter text))))"
proof -
  obtain b' s' where f: "fold (considerDelimiter (delimiterCounts text)) candidates (COMMA, - 1) = (b', s')"
    by (cases "fold (considerDelimiter (delimiterCounts text)) candidates (COMMA, - 1)") auto
  then have r: "detectDelimiter text = b'" using assms by (simp add: detectDelimiter_def)
  from fold_consider [OF f] show ?thesis
  proof (elim disjE conjE exE)
    assume a: "(b', s') = (COMMA, - 1)"
      and b: "\<forall>d\<in>set candidates. eligible (delimiterCounts text) d \<longrightarrow> consistency (delimiterCounts text d) \<le> - 1"
    have "\<not> eligible (delimiterCounts text) d" if "d \<in> set candidates" for d
    proof
      assume e: "eligible (delimiterCounts text) d"
      then have "0 < consistency (delimiterCounts text d)"
        by (simp add: eligible_def consistency_pos)
      with b that e show False by fastforce
    qed
    then show ?thesis using a r by auto
  next
    fix pre post
    assume "candidates = pre @ b' # post" "eligible (delimiterCounts text) b'"
      "s' = consistency (delimiterCounts text b')"
      "\<forall>d\<in>set pre. eligible (delimiterCounts text) d \<longrightarrow> consistency (delimiterCounts text d) < s'"
      "\<forall>d\<in>set post. eligible (delimiterCounts text) d \<longrightarrow> consistency (delimiterCounts text d) \<le> s'"
    then show ?thesis unfolding r by (intro disjI2 exI [of _ pre] exI [of _ post]) simp
  qed
qed


lemma detectDelimiter_candidate: "detectDelimiter s \<in> set candidates"
proof (cases "sampleLines s = []")
  case True
  then show ?thesis
    by (simp add: detectDelimiter_def candidates_def)
next
  case False
  from detect_cases [OF False] show ?thesis
  proof (elim disjE conjE exE)
    assume "detectDelimiter s = COMMA"
    then show ?thesis
      by (simp add: candidates_def)
  next
    fix pre post
    assume "candidates = pre @ detectDelimiter s # post"
    then have "set candidates = set (pre @ detectDelimiter s # post)"
      by simp
    then show ?thesis
      by simp
  qed
qed

lemma eligible_iff: "sampleLines text \<noteq> [] \<Longrightarrow> eligible (delimiterCounts text) d = (hd (delimiterCounts text d) \<noteq> 0)"
  by (simp add: eligible_def delimiterCounts_def)

text \<open>
  Claim C5, as the code has it. On a sample without a non-blank line among its first ten
  lines the detector returns comma. Otherwise only the candidates whose count on the first
  sampled line is not zero take part: if there is none the detector returns comma, and if
  there is one it returns the first candidate, in the order comma, tab, pipe, semicolon,
  whose score is the highest among them; that score is above zero. The score is the mean
  count per line, divided by one plus the variance of the count, as the source computes it
  in double-precision arithmetic: two candidates tie only if their computed scores are the
  same double. For a sample where comma occurs 0, 2, 5 times and tab 3, 3, 3 times on the
  lines, it returns tab.
\<close>

theorem detectDelimiter_first_best:
  "(sampleLines text = [] \<longrightarrow> detectDelimiter text = COMMA) \<and>
   (sampleLines text \<noteq> [] \<longrightarrow>
      (detectDelimiter text = COMMA \<and> (\<forall>d\<in>set candidates. hd (delimiterCounts text d) = 0)) \<or>
      (\<exists>pre post. candidates = pre @ detectDelimiter text # post \<and>
         hd (delimiterCounts text (detectDelimiter text)) \<noteq> 0 \<and>
         0 < consistency (delimiterCounts text (detectDelimiter text)) \<and>
         (\<forall>d\<in>set pre. hd (delimiterCounts text d) \<noteq> 0 \<longrightarrow>
            consistency (delimiterCounts text d) < consistency (delimiterCounts text (detectDelimiter text))) \<and>
         (\<forall>d\<in>set post. hd (delimiterCounts text d) \<noteq> 0 \<longrightarrow>
            consistency (delimiterCounts text d) \<le> consistency (delimiterCounts text (detectDelimiter text))))) \<and>
   detectDelimiter
     (''a'' @ [TAB] @ ''b'' @ [TAB] @ ''c'' @ [TAB] @ ''d'' @ [LF] @
      ''1,2,3'' @ [TAB] @ ''4'' @ [TAB] @ ''5'' @ [TAB] @ ''6'' @ [LF] @
      ''1,2,3,4,5,6'' @ [TAB] @ ''7'' @ [TAB] @ ''8'' @ [TAB] @ ''9'') = TAB \<and>
   delimiterCounts
     (''a'' @ [TAB] @ ''b'' @ [TAB] @ ''c'' @ [TAB] @ ''d'' @ [LF] @
      ''1,2,3'' @ [TAB] @ ''4'' @ [TAB] @ ''5'' @ [TAB] @ ''6'' @ [LF] @
      ''1,2,3,4,5,6'' @ [TAB] @ ''7'' @ [TAB] @ ''8'' @ [TAB] @ ''9'') COMMA = [0, 2, 5] \<and>
   delimiterCounts
     (''a'' @ [TAB] @ ''b'' @ [TAB] @ ''c'' @ [TAB] @ ''d'' @ [LF] @
      ''1,2,3'' @ [TAB] @ ''4'' @ [TAB] @ ''5'' @ [TAB] @ ''6'' @ [LF] @
      ''1,2,3,4,5,6'' @ [TAB] @ ''7'' @ [TAB] @ ''8'' @ [TAB] @ ''9'') TAB = [3, 3, 3]"
proof (intro conjI impI)
  show "detectDelimiter text = COMMA" if "sampleLines text = []"
    using that by (simp add: detectDelimiter_def)
next
  assume ne: "sampleLines text \<noteq> []"
  from detect_cases [OF ne] show
    "(detectDelimiter text = COMMA \<and> (\<forall>d\<in>set candidates. hd (delimiterCounts text d) = 0)) \<or>
      (\<exists>pre post. candidates = pre @ detectDelimiter text # post \<and>
         hd (delimiterCounts text (detectDelimiter text)) \<noteq> 0 \<and>
         0 < consistency (delimiterCounts text (detectDelimiter text)) \<and>
         (\<forall>d\<in>set pre. hd (delimiterCounts text d) \<noteq> 0 \<longrightarrow>
            consistency (delimiterCounts text d) < consistency (delimiterCounts text (detectDelimiter text))) \<and>
         (\<forall>d\<in>set post. hd (delimiterCounts text d) \<noteq> 0 \<longrightarrow>
            consistency (delimiterCounts text d) \<le> consistency (delimiterCounts text (detectDelimiter text))))"
  proof (elim disjE conjE exE)
    assume "detectDelimiter text = COMMA" "\<forall>d\<in>set candidates. \<not> eligible (delimiterCounts text) d"
    then show ?thesis by (simp add: eligible_iff [OF ne])
  next
    fix pre post
    assume a: "candidates = pre @ detectDelimiter text # post"
      "eligible (delimiterCounts text) (detectDelimiter text)"
      "\<forall>d\<in>set pre. eligible (delimiterCounts text) d \<longrightarrow>
         consistency (delimiterCounts text d) < consistency (delimiterCounts text (detectDelimiter text))"
      "\<forall>d\<in>set post. eligible (delimiterCounts text) d \<longrightarrow>
         consistency (delimiterCounts text d) \<le> consistency (delimiterCounts text (detectDelimiter text))"
    have "0 < consistency (delimiterCounts text (detectDelimiter text))"
      using a(2) by (simp add: eligible_def consistency_pos)
    with a show ?thesis
      by (intro disjI2 exI [of _ pre] exI [of _ post]) (simp add: eligible_iff [OF ne])
  qed
next
  show "detectDelimiter
     (''a'' @ [TAB] @ ''b'' @ [TAB] @ ''c'' @ [TAB] @ ''d'' @ [LF] @
      ''1,2,3'' @ [TAB] @ ''4'' @ [TAB] @ ''5'' @ [TAB] @ ''6'' @ [LF] @
      ''1,2,3,4,5,6'' @ [TAB] @ ''7'' @ [TAB] @ ''8'' @ [TAB] @ ''9'') = TAB"
    by (simp add: detect_simps eval_simps split del: if_split)
next
  show "delimiterCounts
     (''a'' @ [TAB] @ ''b'' @ [TAB] @ ''c'' @ [TAB] @ ''d'' @ [LF] @
      ''1,2,3'' @ [TAB] @ ''4'' @ [TAB] @ ''5'' @ [TAB] @ ''6'' @ [LF] @
      ''1,2,3,4,5,6'' @ [TAB] @ ''7'' @ [TAB] @ ''8'' @ [TAB] @ ''9'') COMMA = [0, 2, 5]"
    by code_simp
next
  show "delimiterCounts
     (''a'' @ [TAB] @ ''b'' @ [TAB] @ ''c'' @ [TAB] @ ''d'' @ [LF] @
      ''1,2,3'' @ [TAB] @ ''4'' @ [TAB] @ ''5'' @ [TAB] @ ''6'' @ [LF] @
      ''1,2,3,4,5,6'' @ [TAB] @ ''7'' @ [TAB] @ ''8'' @ [TAB] @ ''9'') TAB = [3, 3, 3]"
    by code_simp
qed

text \<open>The theorem for claim C5 at the sample \<^verbatim>\<open>a;b;c\<close>, \<^verbatim>\<open>1;2;3\<close>.\<close>

theorem detectDelimiter_first_best_witness:
  "(detectDelimiter (''a;b;c'' @ [LF] @ ''1;2;3'') = COMMA \<and>
      (\<forall>d\<in>set candidates. hd (delimiterCounts (''a;b;c'' @ [LF] @ ''1;2;3'') d) = 0)) \<or>
   (\<exists>pre post. candidates = pre @ detectDelimiter (''a;b;c'' @ [LF] @ ''1;2;3'') # post \<and>
         hd (delimiterCounts (''a;b;c'' @ [LF] @ ''1;2;3'') (detectDelimiter (''a;b;c'' @ [LF] @ ''1;2;3''))) \<noteq> 0 \<and>
         0 < consistency (delimiterCounts (''a;b;c'' @ [LF] @ ''1;2;3'') (detectDelimiter (''a;b;c'' @ [LF] @ ''1;2;3''))) \<and>
         (\<forall>d\<in>set pre. hd (delimiterCounts (''a;b;c'' @ [LF] @ ''1;2;3'') d) \<noteq> 0 \<longrightarrow>
            consistency (delimiterCounts (''a;b;c'' @ [LF] @ ''1;2;3'') d) < consistency (delimiterCounts (''a;b;c'' @ [LF] @ ''1;2;3'') (detectDelimiter (''a;b;c'' @ [LF] @ ''1;2;3'')))) \<and>
         (\<forall>d\<in>set post. hd (delimiterCounts (''a;b;c'' @ [LF] @ ''1;2;3'') d) \<noteq> 0 \<longrightarrow>
            consistency (delimiterCounts (''a;b;c'' @ [LF] @ ''1;2;3'') d) \<le> consistency (delimiterCounts (''a;b;c'' @ [LF] @ ''1;2;3'') (detectDelimiter (''a;b;c'' @ [LF] @ ''1;2;3'')))))"
proof -
  have "sampleLines (''a;b;c'' @ [LF] @ ''1;2;3'') \<noteq> []"
    by code_simp
  with detectDelimiter_first_best [of "''a;b;c'' @ [LF] @ ''1;2;3''"] show ?thesis
    by blast
qed

text \<open>
  The claim C5 as the specification words it fails: on the sample of the four lines
  \<^verbatim>\<open>a,b\<close>, \<^verbatim>\<open>;;;;;\<close>, \<^verbatim>\<open>;;;;;\<close>, \<^verbatim>\<open>;;;;;\<close> the semicolon, with the counts 0, 5,
  5, 5, has a higher score than the comma, with the counts 1, 0, 0, 0 (about 0.66 against
  0.21), and the detector returns comma, since the semicolon does not occur on the first
  line.
\<close>

theorem detectDelimiter_best_counterexample:
  "detectDelimiter (''a,b'' @ [LF] @ '';;;;;'' @ [LF] @ '';;;;;'' @ [LF] @ '';;;;;'') = COMMA \<and>
   delimiterCounts (''a,b'' @ [LF] @ '';;;;;'' @ [LF] @ '';;;;;'' @ [LF] @ '';;;;;'') COMMA = [1, 0, 0, 0] \<and>
   delimiterCounts (''a,b'' @ [LF] @ '';;;;;'' @ [LF] @ '';;;;;'' @ [LF] @ '';;;;;'') SEMICOLON = [0, 5, 5, 5] \<and>
   consistency [1, 0, 0, 0] = 948126237341157 / 4503599627370496 \<and>
   consistency [0, 5, 5, 5] = 2969406347716811 / 4503599627370496 \<and>
   consistency [1, 0, 0, 0] < consistency [0, 5, 5, 5]"
proof -
  have 1: "consistency [1, 0, 0, 0] = 948126237341157 / 4503599627370496"
    by (simp add: consistency_def double_simps split del: if_split)
  have 2: "consistency [0, 5, 5, 5] = 2969406347716811 / 4503599627370496"
    by (simp add: consistency_def double_simps split del: if_split)
  have 3: "detectDelimiter (''a,b'' @ [LF] @ '';;;;;'' @ [LF] @ '';;;;;'' @ [LF] @ '';;;;;'') = COMMA"
    by (simp add: detect_simps eval_simps split del: if_split)
  have 4: "delimiterCounts (''a,b'' @ [LF] @ '';;;;;'' @ [LF] @ '';;;;;'' @ [LF] @ '';;;;;'') COMMA = [1, 0, 0, 0]"
    "delimiterCounts (''a,b'' @ [LF] @ '';;;;;'' @ [LF] @ '';;;;;'' @ [LF] @ '';;;;;'') SEMICOLON = [0, 5, 5, 5]"
    by code_simp+
  show ?thesis
    unfolding 1 2 3 4 by simp
qed

subsection \<open>The effect of the rounding on the choice\<close>

text \<open>
  On the sample \<^verbatim>\<open>a,b<TAB>c<TAB>d\<close>, \<^verbatim>\<open>x\<close>, \<^verbatim>\<open>a,b<TAB><TAB><TAB><TAB>c\<close> the comma
  has the counts 1, 0, 1 and the tab the counts 2, 0, 4. Computed exactly both scores are
  6/11; the doubles that the source computes differ in the last bit, and the detector
  returns the tab.
\<close>

lemma detectDelimiter_rounding_example:
  "delimiterCounts (''a,b'' @ [TAB] @ ''c'' @ [TAB] @ ''d'' @ [LF] @ ''x'' @ [LF] @
      ''a,b'' @ [TAB, TAB, TAB, TAB] @ ''c'') COMMA = [1, 0, 1] \<and>
   delimiterCounts (''a,b'' @ [TAB] @ ''c'' @ [TAB] @ ''d'' @ [LF] @ ''x'' @ [LF] @
      ''a,b'' @ [TAB, TAB, TAB, TAB] @ ''c'') TAB = [2, 0, 4] \<and>
   consistency [1, 0, 1] = 1228254443828317 / 2251799813685248 \<and>
   consistency [2, 0, 4] = 4913017775313269 / 9007199254740992 \<and>
   consistency [1, 0, 1] < consistency [2, 0, 4] \<and>
   detectDelimiter (''a,b'' @ [TAB] @ ''c'' @ [TAB] @ ''d'' @ [LF] @ ''x'' @ [LF] @
      ''a,b'' @ [TAB, TAB, TAB, TAB] @ ''c'') = TAB"
proof -
  have 1: "consistency [1, 0, 1] = 1228254443828317 / 2251799813685248"
    by (simp add: consistency_def double_simps split del: if_split)
  have 2: "consistency [2, 0, 4] = 4913017775313269 / 9007199254740992"
    by (simp add: consistency_def double_simps split del: if_split)
  have 3: "detectDelimiter (''a,b'' @ [TAB] @ ''c'' @ [TAB] @ ''d'' @ [LF] @ ''x'' @ [LF] @
      ''a,b'' @ [TAB, TAB, TAB, TAB] @ ''c'') = TAB"
    by (simp add: detect_simps eval_simps split del: if_split)
  have 4: "delimiterCounts (''a,b'' @ [TAB] @ ''c'' @ [TAB] @ ''d'' @ [LF] @ ''x'' @ [LF] @
      ''a,b'' @ [TAB, TAB, TAB, TAB] @ ''c'') COMMA = [1, 0, 1]"
    "delimiterCounts (''a,b'' @ [TAB] @ ''c'' @ [TAB] @ ''d'' @ [LF] @ ''x'' @ [LF] @
      ''a,b'' @ [TAB, TAB, TAB, TAB] @ ''c'') TAB = [2, 0, 4]"
    by code_simp+
  show ?thesis
    unfolding 1 2 3 4 by simp
qed

text \<open>
  Claim C9, as the code has it. A candidate whose count on the first sampled line is zero is
  never returned by the detector, with one exception: the comma, which is the default, is
  returned when the count of every candidate on the first sampled line is zero.
\<close>

theorem zero_first_count_only_default:
  assumes "sampleLines text \<noteq> []" and "hd (delimiterCounts text d) = 0"
  shows "(d \<noteq> COMMA \<longrightarrow> detectDelimiter text \<noteq> d) \<and>
         (detectDelimiter text = d \<longrightarrow>
            d = COMMA \<and> (\<forall>c\<in>set candidates. hd (delimiterCounts text c) = 0))"
  using detect_cases [OF assms(1)] assms(2) by (auto simp: eligible_iff [OF assms(1)])

text \<open>
  The theorem for claim C9 at a sample where the semicolon is absent from the first line and
  occurs three times on each of the three later lines.
\<close>

theorem zero_first_count_only_default_witness:
  "detectDelimiter (''x|y'' @ [LF] @ ''1;2;3;4'' @ [LF] @ ''5;6;7;8'' @ [LF] @ ''9;0;1;2'') \<noteq> SEMICOLON"
proof -
  have "sampleLines (''x|y'' @ [LF] @ ''1;2;3;4'' @ [LF] @ ''5;6;7;8'' @ [LF] @ ''9;0;1;2'') \<noteq> []"
    by code_simp
  moreover have "hd (delimiterCounts (''x|y'' @ [LF] @ ''1;2;3;4'' @ [LF] @ ''5;6;7;8'' @ [LF] @ ''9;0;1;2'') SEMICOLON) = 0"
    by code_simp
  ultimately show ?thesis
    using zero_first_count_only_default [of "''x|y'' @ [LF] @ ''1;2;3;4'' @ [LF] @ ''5;6;7;8'' @ [LF] @ ''9;0;1;2''" SEMICOLON]
    by simp
qed

text \<open>
  The claim C9 as stated fails for the comma: on the sample \<^verbatim>\<open>abc\<close>, \<^verbatim>\<open>d,e\<close> its
  count on the first line is zero and the detector returns it.
\<close>

theorem zero_first_count_counterexample:
  "sampleLines (''abc'' @ [LF] @ ''d,e'') \<noteq> [] \<and>
   hd (delimiterCounts (''abc'' @ [LF] @ ''d,e'') COMMA) = 0 \<and>
   detectDelimiter (''abc'' @ [LF] @ ''d,e'') = COMMA"
  by code_simp

section \<open>Properties of the chunked export\<close>




lemma tsvLines_fields [simp]:
  "progress (tsvLines hs sel ls st) = progress st"
  "offset (tsvLines hs sel ls st) = offset st"
  "remainder (tsvLines hs sel ls st) = remainder st"
  "isFirstChunk (tsvLines hs sel ls st) = isFirstChunk st"
  by (induction hs sel ls st rule: tsvLines.induct) auto


















lemma csvRows_fields [simp]:
  "progress (csvRows hs sel rows st) = progress st"
  "offset (csvRows hs sel rows st) = offset st"
  "remainder (csvRows hs sel rows st) = remainder st"
  "isFirstChunk (csvRows hs sel rows st) = isFirstChunk st"
  by (induction hs sel rows st rule: csvRows.induct) auto





lemma chunk_progress:
  "progress (tsvChunk n hs sel fl st) = progress st @ [percent (offset st + n) (length fl)]"
  "offset (tsvChunk n hs sel fl st) = offset st + n"
  "progress (csvChunk n d hs sel fl st) = progress st @ [percent (offset st + n) (length fl)]"
  "offset (csvChunk n d hs sel fl st) = offset st + n"
  by (simp_all add: tsvChunk_def csvChunk_def Let_def)



lemma initialState_fields [simp]:
  "offset (initialState hs sel) = 0"
  "remainder (initialState hs sel) = []"
  "isFirstChunk (initialState hs sel) = True"
  "outputParts (initialState hs sel) = [formatCSVLine (map (js_index hs) sel) @ [LF]]"
  by (simp_all add: initialState_def)










lemma length_selected [simp]:
  "length (tsvSelectedValues hs sel line) = length sel"
  "length (csvSelectedValues hs sel vs) = length sel"
  by (simp_all add: tsvSelectedValues_def csvSelectedValues_def Let_def)







subsection \<open>Cuts that are not safe\<close>

text \<open>
  Three runs outside the condition of the theorem for claim C1, each compared with the run
  over the whole input as one chunk. In the first the backward scan of the first chunk meets
  the line feed inside the quoted field \<^verbatim>\<open>"a<LF>b"\<close> before it has met a quote character,
  and cuts there. In the second, tab branch, the last line feed of the first chunk belongs
  to a CR LF pair and the carriage return stays in the field before it. In the third the
  first chunk holds blank lines only, so the header row is met in the second chunk and
  exported as a data row.
\<close>

lemma cut_inside_quotes_example:
  "exportedParts (exportFile_with 6 \<lparr>delimiter = COMMA, headers = [''h'']\<rparr> [0]
      (''h'' @ [LF, QUOTE] @ ''a'' @ [LF] @ ''b'' @ [QUOTE] @ '',c'' @ [LF]))
     = [''h'' @ [LF], [QUOTE] @ ''a'' @ [LF, QUOTE, LF], [QUOTE] @ ''b,c'' @ [LF, QUOTE, LF]] \<and>
   exportedParts (exportFile_with 11 \<lparr>delimiter = COMMA, headers = [''h'']\<rparr> [0]
      (''h'' @ [LF, QUOTE] @ ''a'' @ [LF] @ ''b'' @ [QUOTE] @ '',c'' @ [LF]))
     = [''h'' @ [LF], [QUOTE] @ ''a'' @ [LF] @ ''b'' @ [QUOTE, LF]]"
  by (simp add: eval_simps split del: if_split)

lemma cut_after_carriage_return_example:
  "exportedParts (exportFile_with 8 \<lparr>delimiter = TAB, headers = [''h'']\<rparr> [0]
      (''h'' @ [CR, LF] @ ''a'' @ [CR, LF] @ ''b'' @ [CR, LF] @ ''c'' @ [CR, LF]))
     = [''h'' @ [LF], [QUOTE] @ ''a'' @ [CR, QUOTE, LF], ''b'' @ [LF], ''c'' @ [LF]] \<and>
   exportedParts (exportFile_with 12 \<lparr>delimiter = TAB, headers = [''h'']\<rparr> [0]
      (''h'' @ [CR, LF] @ ''a'' @ [CR, LF] @ ''b'' @ [CR, LF] @ ''c'' @ [CR, LF]))
     = [''h'' @ [LF], ''a'' @ [LF], ''b'' @ [LF], ''c'' @ [LF]]"
  by (simp add: eval_simps split del: if_split)

lemma blank_first_chunk_example:
  "exportedParts (exportFile_with 2 \<lparr>delimiter = COMMA, headers = [''h'']\<rparr> [0]
      ([LF, LF] @ ''h'' @ [LF] @ ''x'' @ [LF]))
     = [''h'' @ [LF], ''h'' @ [LF], ''x'' @ [LF]] \<and>
   exportedParts (exportFile_with 6 \<lparr>delimiter = COMMA, headers = [''h'']\<rparr> [0]
      ([LF, LF] @ ''h'' @ [LF] @ ''x'' @ [LF]))
     = [''h'' @ [LF], ''x'' @ [LF]]"
  by (simp add: eval_simps split del: if_split)

section \<open>Properties of the progress reports\<close>

lemma turns_step:
  assumes "off < fileSize" "0 < n"
  shows "chunkTurns n fileSize off = Suc (chunkTurns n fileSize (off + n))"
proof (cases "off + n < fileSize")
  case True
  then have "fileSize - off + n - 1 = (fileSize - (off + n) + n - 1) + n"
    using assms by simp
  then have "(fileSize - off + n - 1) div n = (fileSize - (off + n) + n - 1) div n + 1"
    using assms(2) by (simp only: div_add_self2)
  then show ?thesis
    by (simp add: chunkTurns_def)
next
  case False
  then have a: "fileSize - (off + n) = 0" by simp
  have "n * 1 \<le> fileSize - off + n - 1" "fileSize - off + n - 1 < n * Suc 1"
    using False assms by simp_all
  then have "(fileSize - off + n - 1) div n = 1"
    by (rule div_nat_eqI)
  moreover have "(n - 1) div n = 0"
    using assms(2) by simp
  ultimately show ?thesis
    by (simp add: chunkTurns_def a)
qed

lemma turns_done: "\<not> off < fileSize \<Longrightarrow> 0 < n \<Longrightarrow> chunkTurns n fileSize off = 0"
  by (simp add: chunkTurns_def)

lemma reports_shift:
  "map (\<lambda>k. f (off + k * n)) [Suc 0..<Suc (Suc m)] =
     f (off + n) # map (\<lambda>k. f (off + n + k * n)) [Suc 0..<Suc m]"
proof -
  have "[Suc 0..<Suc (Suc m)] = Suc 0 # map Suc [Suc 0..<Suc m]"
    by (simp add: upt_conv_Cons map_Suc_upt del: upt_Suc)
  then show ?thesis
    by (simp add: comp_def add.assoc del: upt_Suc)
qed

lemma tsvLoop_progress:
  "0 < n \<Longrightarrow> progress (tsvLoop n hs sel fl st) =
     progress st @ map (\<lambda>k. percent (offset st + k * n) (length fl))
       [Suc 0..<Suc (chunkTurns n (length fl) (offset st))]"
proof (induction n hs sel fl st rule: tsvLoop.induct)
  case (1 n hs sel fl st)
  show ?case
  proof (cases "offset st < length fl")
    case True
    with 1 show ?thesis
      by (subst tsvLoop.simps)
         (simp add: chunk_progress turns_step [of "offset st"]
            reports_shift [of "\<lambda>x. percent x (length fl)"] del: upt_Suc)
  next
    case False
    with 1 show ?thesis
      by (subst tsvLoop.simps) (simp add: turns_done)
  qed
qed

lemma csvLoop_progress:
  "0 < n \<Longrightarrow> progress (csvLoop n d hs sel fl st) =
     progress st @ map (\<lambda>k. percent (offset st + k * n) (length fl))
       [Suc 0..<Suc (chunkTurns n (length fl) (offset st))]"
proof (induction n d hs sel fl st rule: csvLoop.induct)
  case (1 n d hs sel fl st)
  show ?case
  proof (cases "offset st < length fl")
    case True
    with 1 show ?thesis
      by (subst csvLoop.simps)
         (simp add: chunk_progress turns_step [of "offset st"]
            reports_shift [of "\<lambda>x. percent x (length fl)"] del: upt_Suc)
  next
    case False
    with 1 show ?thesis
      by (subst csvLoop.simps) (simp add: turns_done)
  qed
qed

lemma remainder_progress [simp]:
  "progress (tsvRemainder hs sel st) = progress st"
  "progress (csvRemainder d hs sel st) = progress st"
  by (simp_all add: tsvRemainder_def csvRemainder_def Let_def)

lemma exportFile_with_progress:
  assumes "0 < n" "sel \<noteq> []"
  shows "progressReports (exportFile_with n s sel fl) =
     0 # map (\<lambda>k. percent (k * n) (length fl)) [Suc 0..<Suc (chunkTurns n (length fl) 0)]"
  using assms
  by (simp add: progressReports_def exportFile_with_def tsvLoop_progress csvLoop_progress
      initialState_def del: upt_Suc)

lemma percent_mono: "a \<le> b \<Longrightarrow> percent a s \<le> percent b s"
proof -
  assume ab: "a \<le> b"
  have "(of_nat a :: rat) / of_nat s \<le> of_nat b / of_nat s"
    using ab by (intro divide_right_mono) simp_all
  then have "ddiv (of_nat a) (of_nat s) \<le> ddiv (of_nat b) (of_nat s)"
    unfolding ddiv_def by (intro roundDouble_mono) simp_all
  moreover have "0 \<le> ddiv (of_nat a) (of_nat s)"
    unfolding ddiv_def by (intro roundDouble_nonneg) simp
  ultimately have "dmul (ddiv (of_nat a) (of_nat s)) 100 \<le> dmul (ddiv (of_nat b) (of_nat s)) 100"
    unfolding dmul_def by (intro roundDouble_mono) simp_all
  then have "mathRound (dmul (ddiv (of_nat a) (of_nat s)) 100)
      \<le> mathRound (dmul (ddiv (of_nat b) (of_nat s)) 100)"
    unfolding mathRound_def by (intro floor_mono) simp
  then show ?thesis
    unfolding percent_def by (intro nat_mono min.mono order_refl)
qed

lemma percent_le: "percent a s \<le> 100"
  by (simp add: percent_def)

lemma percent_end:
  assumes "0 < s" "s \<le> a"
  shows "percent a s = 100"
proof -
  have "(1::rat) \<le> of_nat a / of_nat s"
    using assms by simp
  then have "roundDouble 1 \<le> ddiv (of_nat a) (of_nat s)"
    unfolding ddiv_def by (intro roundDouble_mono) simp_all
  then have "100 \<le> ddiv (of_nat a) (of_nat s) * 100"
    by (simp add: roundDouble_exact)
  then have "roundDouble 100 \<le> dmul (ddiv (of_nat a) (of_nat s)) 100"
    unfolding dmul_def by (intro roundDouble_mono) simp_all
  then have "(100::rat) + 1 / 2 \<le> dmul (ddiv (of_nat a) (of_nat s)) 100 + 1 / 2"
    by (simp add: roundDouble_exact)
  then have "\<lfloor>(100::rat) + 1 / 2\<rfloor> \<le> mathRound (dmul (ddiv (of_nat a) (of_nat s)) 100)"
    unfolding mathRound_def by (rule floor_mono)
  moreover have "\<lfloor>(100::rat) + 1 / 2\<rfloor> = 100"
    by (simp add: floor_numeral_div)
  ultimately show ?thesis
    by (simp add: percent_def)
qed

lemma turns_cover:
  assumes "0 < n"
  shows "s \<le> chunkTurns n s 0 * n"
proof -
  define t where "t = s + n - 1"
  have "t div n * n + t mod n = t"
    by (rule div_mult_mod_eq)
  moreover have "t mod n < n"
    using assms by simp
  moreover have "s + n \<le> t + 1"
    unfolding t_def by simp
  ultimately have "s \<le> t div n * n"
    by linarith
  then show ?thesis
    by (simp add: chunkTurns_def t_def)
qed

lemma turns_pos: "0 < n \<Longrightarrow> 0 < s \<Longrightarrow> 0 < chunkTurns n s 0"
  using turns_cover [of n s] by (cases "chunkTurns n s 0") auto

lemma reports_sorted: "sorted (0 # map (\<lambda>k. percent (k * n) s) [Suc 0..<Suc m])"
proof -
  have "sorted (map (\<lambda>k. percent (k * n) s) [Suc 0..<Suc m])"
    unfolding sorted_map by (rule sorted_wrt_mono_rel [OF _ sorted_upt]) (simp add: percent_mono)
  then show ?thesis
    by simp
qed

lemma reports_last:
  assumes "0 < n" "0 < s"
  shows "last (0 # map (\<lambda>k. percent (k * n) s) [Suc 0..<Suc (chunkTurns n s 0)]) = 100"
proof -
  obtain m where m: "chunkTurns n s 0 = Suc m"
    using turns_pos [OF assms] by (cases "chunkTurns n s 0") auto
  have "percent (chunkTurns n s 0 * n) s = 100"
    using assms(2) turns_cover [OF assms(1), of s] by (rule percent_end)
  then show ?thesis
    by (simp add: m)
qed

text \<open>
  Claim C8, as the code has it. For every export run with a non-empty selection the reported
  progress values are integer percentages between 0 and 100, monotonically non-decreasing:
  0 before the first chunk, and after the k-th chunk the value that the source computes in
  double-precision arithmetic from k times the chunk size and the file size, the quotient
  times 100 rounded to the nearest integer and capped at 100. For a non-empty file the last
  report, made when the end of the input is reached, is 100, as is every report at an
  offset that is not below the file size. A report of 100 can already be made before the
  end of the input.
\<close>

theorem progress_reports:
  assumes "0 < n" and "sel \<noteq> []"
  shows "progressReports (exportFile_with n s sel fl) =
           0 # map (\<lambda>k. percent (k * n) (length fl)) [Suc 0..<Suc (chunkTurns n (length fl) 0)] \<and>
         sorted (progressReports (exportFile_with n s sel fl)) \<and>
         list_all (\<lambda>p. p \<le> 100) (progressReports (exportFile_with n s sel fl)) \<and>
         hd (progressReports (exportFile_with n s sel fl)) = 0 \<and>
         (fl \<noteq> [] \<longrightarrow> last (progressReports (exportFile_with n s sel fl)) = 100) \<and>
         (fl \<noteq> [] \<longrightarrow> (\<forall>off. length fl \<le> off \<longrightarrow> percent off (length fl) = 100)) \<and>
         sorted (progressReports (exportFile s sel fl))"
proof -
  have c: "0 < CHUNK_SIZE"
    by (simp add: CHUNK_SIZE_def)
  have "list_all (\<lambda>p. p \<le> 100)
     (0 # map (\<lambda>k. percent (k * n) (length fl)) [Suc 0..<Suc (chunkTurns n (length fl) 0)])"
    by (simp add: list_all_iff percent_le)
  moreover have "fl \<noteq> [] \<longrightarrow>
     last (0 # map (\<lambda>k. percent (k * n) (length fl)) [Suc 0..<Suc (chunkTurns n (length fl) 0)]) = 100"
    using reports_last [OF assms(1), of "length fl"] by simp
  moreover have "fl \<noteq> [] \<longrightarrow> (\<forall>off. length fl \<le> off \<longrightarrow> percent off (length fl) = 100)"
    by (simp add: percent_end)
  ultimately show ?thesis
    unfolding exportFile_def exportFile_with_progress [OF assms] exportFile_with_progress [OF c assms(2)]
    using reports_sorted by simp
qed

text \<open>The theorem for claim C8 at a file of ten characters read in chunks of four.\<close>

theorem progress_reports_witness:
  "progressReports (exportFile_with 4 \<lparr>delimiter = COMMA, headers = [''h'']\<rparr> [0] (replicate 10 (CHR ''a'')))
     = [0, 40, 80, 100] \<and>
   sorted (progressReports (exportFile_with 4 \<lparr>delimiter = COMMA, headers = [''h'']\<rparr> [0] (replicate 10 (CHR ''a'')))) \<and>
   last (progressReports (exportFile_with 4 \<lparr>delimiter = COMMA, headers = [''h'']\<rparr> [0] (replicate 10 (CHR ''a'')))) = 100"
proof -
  have p: "percent 4 10 = 40" "percent 8 10 = 80" "percent 12 10 = 100"
    by (simp_all add: percent_def double_simps split del: if_split)
  show ?thesis
    using progress_reports [of 4 "[0]" "\<lparr>delimiter = COMMA, headers = [''h'']\<rparr>" "replicate 10 (CHR ''a'')"]
    by (simp add: chunkTurns_def p upt_conv_Cons)
qed

text \<open>
  The claim C8 as the specification words it fails: for a file of 5242881 bytes, one byte
  more than the chunk size of feedFilter.js, the report after the first chunk is already
  100 although one byte of input is still to be read.
\<close>

theorem progress_early_100_counterexample:
  "progressReports
     (exportFile \<lparr>delimiter = COMMA, headers = [''h'']\<rparr> [0] (replicate 5242881 (CHR ''a'')))
     = [0, 100, 100] \<and>
   CHUNK_SIZE < length (replicate 5242881 (CHR ''a''))"
proof -
  have c: "0 < CHUNK_SIZE"
    by (simp add: CHUNK_SIZE_def)
  have s: "[0 :: nat] \<noteq> []"
    by simp
  have u: "[Suc 0..<3] = [1, 2]"
    by (simp add: upt_conv_Cons)
  have p: "percent 5242880 5242881 = 100" "percent 10485760 5242881 = 100"
    by (simp_all add: percent_def double_simps split del: if_split)
  show ?thesis
    unfolding exportFile_def exportFile_with_progress [OF c s]
    by (simp add: chunkTurns_def CHUNK_SIZE_def u p)
qed

subsection \<open>The effect of the rounding on a report\<close>

text \<open>
  For a file of 209715200 bytes the offset after the 23rd chunk is 57.5 percent of the file
  size. The quotient 0.575 is not a double; the product of the nearest double with 100 is
  the double just below 57.5, and the report is 57.
\<close>

lemma percent_rounding_example:
  "percent (23 * CHUNK_SIZE) 209715200 = 57 \<and> 200 * (23 * CHUNK_SIZE) = 115 * 209715200"
  by (simp add: percent_def CHUNK_SIZE_def double_simps split del: if_split)

section \<open>Properties of the header\<close>

lemma maxColumns_loop_Max:
  "N \<le> M \<Longrightarrow> maxColumns_loop N M rows = Max (insert M (length ` set rows))"
proof (induction rows arbitrary: M)
  case Nil
  then show ?case by simp
next
  case (Cons row rows)
  define M' where "M' = (if length row \<noteq> N then max M (length row) else M)"
  have M': "M' = max M (length row)"
    using Cons.prems by (auto simp: M'_def)
  then have "N \<le> M'"
    using Cons.prems by simp
  from Cons.IH [OF this] have "maxColumns_loop N M' rows = Max (insert M' (length ` set rows))" .
  also have "\<dots> = Max (insert M (length ` set (row # rows)))"
  proof (cases "rows = []")
    case True
    then show ?thesis by (simp add: M' max.commute)
  next
    case False
    then have "length ` set rows \<noteq> {}" by simp
    then show ?thesis
      by (simp add: M' max.assoc)
  qed
  finally show ?case by (simp add: M'_def)
qed

lemma previewHeaders_eq:
  "previewHeaders d pl =
     hd pl @ map (if d = TAB then extraName else columnName)
       [length (hd pl)..<Max (insert (length (hd pl)) (length ` set (take 19 (drop 1 pl))))]"
proof -
  define M where "M = Max (insert (length (hd pl)) (length ` set (take 19 (drop 1 pl))))"
  have m: "maxColumns_loop (length (hd pl)) (length (hd pl)) (take 19 (drop 1 pl)) = M"
    unfolding M_def by (rule maxColumns_loop_Max) simp
  have le: "length (hd pl) \<le> M"
    unfolding M_def by simp
  show ?thesis
  proof (cases "length (hd pl) < M")
    case True
    then show ?thesis
      unfolding previewHeaders_def Let_def m M_def [symmetric] by simp
  next
    case False
    with le have "M = length (hd pl)" by simp
    then show ?thesis
      unfolding previewHeaders_def Let_def m M_def [symmetric] by simp
  qed
qed

lemma csvSelectedValues_eq:
  "csvSelectedValues hs sel vs =
     map (\<lambda>idx. if idx < length hs \<and> idx < length vs then vs ! idx else []) sel"
  by (auto simp: csvSelectedValues_def js_index_def or_empty_def)

lemma tsvSelectedValues_eq:
  "tsvSelectedValues hs sel line =
     map (\<lambda>idx. if idx < length hs \<and> idx < length (splitOn TAB line)
                 then unquoteField (splitOn TAB line ! idx) else []) sel"
  by (auto simp: tsvSelectedValues_def js_index_def or_empty_def Let_def)

text \<open>
  Claim C6, as the code has it. \<^verbatim>\<open>handleFile\<close> extends the header once, from the rows 1
  to 19 of the parsed preview: the header keeps the names of the first parsed row as a
  prefix, its length is the largest field count among that row and those rows, and for a
  delimiter other than tab the appended names are \<^verbatim>\<open>Column_k\<close> for the new positions
  \<open>k\<close>. \<^verbatim>\<open>exportFile\<close> does not change the header: it aligns every row to the header
  length, so a selected index gives the field at that index when it is below both the
  header length and the field count of the row, and the empty string otherwise; fields at
  an index from the header length on are dropped.
\<close>

theorem header_extension:
  "prefix (hd parsedLines) (previewHeaders d parsedLines) \<and>
   length (previewHeaders d parsedLines) =
     Max (insert (length (hd parsedLines)) (length ` set (take 19 (drop 1 parsedLines)))) \<and>
   (d \<noteq> TAB \<longrightarrow>
      previewHeaders d parsedLines =
        hd parsedLines @
        map columnName [length (hd parsedLines)..<length (previewHeaders d parsedLines)]) \<and>
   (handleFile fl = Inr s \<and> delimiter s \<noteq> TAB \<longrightarrow>
      headers s = previewHeaders (delimiter s) (parseCSVData (take (1024 * 1024) fl) (delimiter s))) \<and>
   csvSelectedValues hs sel vs =
     map (\<lambda>idx. if idx < length hs \<and> idx < length vs then vs ! idx else []) sel \<and>
   tsvSelectedValues hs sel line =
     map (\<lambda>idx. if idx < length hs \<and> idx < length (splitOn TAB line)
                 then unquoteField (splitOn TAB line ! idx) else []) sel"
proof -
  have len: "length (previewHeaders d parsedLines) =
     Max (insert (length (hd parsedLines)) (length ` set (take 19 (drop 1 parsedLines))))"
    by (subst previewHeaders_eq) simp
  have pre: "prefix (hd parsedLines) (previewHeaders d parsedLines)"
    by (subst previewHeaders_eq) simp
  have ext: "d \<noteq> TAB \<longrightarrow>
      previewHeaders d parsedLines =
        hd parsedLines @
        map columnName [length (hd parsedLines)..<length (previewHeaders d parsedLines)]"
    unfolding len by (subst previewHeaders_eq) simp
  have hf: "handleFile fl = Inr s \<and> delimiter s \<noteq> TAB \<longrightarrow>
      headers s = previewHeaders (delimiter s) (parseCSVData (take (1024 * 1024) fl) (delimiter s))"
    by (auto simp: handleFile_def Let_def min_def split: if_splits)
  show ?thesis
    using len pre ext hf csvSelectedValues_eq tsvSelectedValues_eq by blast
qed

text \<open>The theorem for claim C6 at a preview whose second row has four fields.\<close>

theorem header_extension_witness:
  "previewHeaders COMMA [[''a'', ''b''], [''1'', ''2'', ''3'', ''4''], [''1'', ''2'', ''3'']] =
     [''a'', ''b'', ''Column_3'', ''Column_4'']"
proof -
  note t = header_extension [where d = COMMA
      and parsedLines = "[[''a'', ''b''], [''1'', ''2'', ''3'', ''4''], [''1'', ''2'', ''3'']]"
      and fl = "[]" and s = "\<lparr>delimiter = COMMA, headers = []\<rparr>" and hs = "[]" and sel = "[]"
      and vs = "[]" and line = "[]"]
  have h: "length (previewHeaders COMMA [[''a'', ''b''], [''1'', ''2'', ''3'', ''4''], [''1'', ''2'', ''3'']]) = 4"
    using conjunct1 [OF conjunct2 [OF t]] by simp
  have c: "map columnName [Suc (Suc 0)..<4] = [''Column_3'', ''Column_4'']"
    by (simp add: columnName_def showNat.simps upt_conv_Cons)
  from conjunct1 [OF conjunct2 [OF conjunct2 [OF t]]] show ?thesis
    unfolding h by (simp add: c)
qed

text \<open>
  The claim C6 as the specification words it fails: in a file of a header line \<^verbatim>\<open>a\<close>, 19
  rows \<^verbatim>\<open>1\<close> and a last row \<^verbatim>\<open>1,2\<close>, the last row is not among the sampled rows; the
  header is not extended, so that no column index addresses the second field of the last
  row, and the export drops it.
\<close>

theorem surplus_dropped_counterexample:
  "handleFile (''a'' @ [LF] @ ''1'' @ [LF] @ ''1'' @ [LF] @ ''1'' @ [LF] @ ''1'' @ [LF] @ ''1'' @ [LF] @ ''1'' @ [LF] @ ''1'' @ [LF] @ ''1'' @ [LF] @ ''1'' @ [LF] @ ''1'' @ [LF] @ ''1'' @ [LF] @ ''1'' @ [LF] @ ''1'' @ [LF] @ ''1'' @ [LF] @ ''1'' @ [LF] @ ''1'' @ [LF] @ ''1'' @ [LF] @ ''1'' @ [LF] @ ''1'' @ [LF] @ ''1,2'' @ [LF]) = Inr \<lparr>delimiter = COMMA, headers = [''a'']\<rparr> \<and>
   last (parseCSVData (''a'' @ [LF] @ ''1'' @ [LF] @ ''1'' @ [LF] @ ''1'' @ [LF] @ ''1'' @ [LF] @ ''1'' @ [LF] @ ''1'' @ [LF] @ ''1'' @ [LF] @ ''1'' @ [LF] @ ''1'' @ [LF] @ ''1'' @ [LF] @ ''1'' @ [LF] @ ''1'' @ [LF] @ ''1'' @ [LF] @ ''1'' @ [LF] @ ''1'' @ [LF] @ ''1'' @ [LF] @ ''1'' @ [LF] @ ''1'' @ [LF] @ ''1'' @ [LF] @ ''1,2'' @ [LF]) COMMA) = [''1'', ''2''] \<and>
   last (exportedParts (exportFile \<lparr>delimiter = COMMA, headers = [''a'']\<rparr> [0] (''a'' @ [LF] @ ''1'' @ [LF] @ ''1'' @ [LF] @ ''1'' @ [LF] @ ''1'' @ [LF] @ ''1'' @ [LF] @ ''1'' @ [LF] @ ''1'' @ [LF] @ ''1'' @ [LF] @ ''1'' @ [LF] @ ''1'' @ [LF] @ ''1'' @ [LF] @ ''1'' @ [LF] @ ''1'' @ [LF] @ ''1'' @ [LF] @ ''1'' @ [LF] @ ''1'' @ [LF] @ ''1'' @ [LF] @ ''1'' @ [LF] @ ''1'' @ [LF] @ ''1,2'' @ [LF]))) = ''1'' @ [LF]"
proof (intro conjI)
  show "handleFile (''a'' @ [LF] @ ''1'' @ [LF] @ ''1'' @ [LF] @ ''1'' @ [LF] @ ''1'' @ [LF] @ ''1'' @ [LF] @ ''1'' @ [LF] @ ''1'' @ [LF] @ ''1'' @ [LF] @ ''1'' @ [LF] @ ''1'' @ [LF] @ ''1'' @ [LF] @ ''1'' @ [LF] @ ''1'' @ [LF] @ ''1'' @ [LF] @ ''1'' @ [LF] @ ''1'' @ [LF] @ ''1'' @ [LF] @ ''1'' @ [LF] @ ''1'' @ [LF] @ ''1,2'' @ [LF]) = Inr \<lparr>delimiter = COMMA, headers = [''a'']\<rparr>"
    by (simp add: detect_simps handleFile_def previewHeaders_def eval_simps split del: if_split)
  show "last (parseCSVData (''a'' @ [LF] @ ''1'' @ [LF] @ ''1'' @ [LF] @ ''1'' @ [LF] @ ''1'' @ [LF] @ ''1'' @ [LF] @ ''1'' @ [LF] @ ''1'' @ [LF] @ ''1'' @ [LF] @ ''1'' @ [LF] @ ''1'' @ [LF] @ ''1'' @ [LF] @ ''1'' @ [LF] @ ''1'' @ [LF] @ ''1'' @ [LF] @ ''1'' @ [LF] @ ''1'' @ [LF] @ ''1'' @ [LF] @ ''1'' @ [LF] @ ''1'' @ [LF] @ ''1,2'' @ [LF]) COMMA) = [''1'', ''2'']"
    by (simp add: eval_simps split del: if_split)
  show "last (exportedParts (exportFile \<lparr>delimiter = COMMA, headers = [''a'']\<rparr> [0] (''a'' @ [LF] @ ''1'' @ [LF] @ ''1'' @ [LF] @ ''1'' @ [LF] @ ''1'' @ [LF] @ ''1'' @ [LF] @ ''1'' @ [LF] @ ''1'' @ [LF] @ ''1'' @ [LF] @ ''1'' @ [LF] @ ''1'' @ [LF] @ ''1'' @ [LF] @ ''1'' @ [LF] @ ''1'' @ [LF] @ ''1'' @ [LF] @ ''1'' @ [LF] @ ''1'' @ [LF] @ ''1'' @ [LF] @ ''1'' @ [LF] @ ''1'' @ [LF] @ ''1,2'' @ [LF]))) = ''1'' @ [LF]"
    by (simp add: eval_simps split del: if_split)
qed

end
